theory Spec2Isabelle
  imports Main "HOL-Library.Multiset" "HOL-Library.Sublist"
begin

section \<open>JavaScript values and string primitives\<close>

text \<open>
  The agents of \<^verbatim>\<open>backend/src/agents\<close> exchange plain JavaScript objects. Objects whose
  shape the code fixes are records; objects that are spread (\<^verbatim>\<open>{...dep, strength: 'medium'}\<close>)
  or whose set of keys matters are property lists in insertion order. A missing property
  reads as \<^verbatim>\<open>undefined\<close>. Strings are byte strings; \<^verbatim>\<open>toLowerCase\<close> is modelled on the
  ASCII letters.
\<close>

datatype js_value = JUndefined | JNumber nat | JString string | JError string

type_synonym js_object = "(string \<times> js_value) list"

definition obj_get :: "js_object \<Rightarrow> string \<Rightarrow> js_value" where
  "obj_get obj k = (case map_of obj k of None \<Rightarrow> JUndefined | Some v \<Rightarrow> v)"

fun obj_set :: "string \<Rightarrow> js_value \<Rightarrow> js_object \<Rightarrow> js_object" where
  "obj_set k v [] = [(k, v)]"
| "obj_set k v (p # rest) = (if fst p = k then (k, v) # rest else p # obj_set k v rest)"

text \<open>\<^verbatim>\<open>x || d\<close> on an optional string: a missing and an empty string are both falsy.\<close>

definition truthy :: "string option \<Rightarrow> bool" where
  "truthy s = (case s of None \<Rightarrow> False | Some t \<Rightarrow> t \<noteq> [])"

definition or_else :: "string option \<Rightarrow> string \<Rightarrow> string" where
  "or_else s d = (case s of None \<Rightarrow> d | Some t \<Rightarrow> if t = [] then d else t)"

text \<open>\<^verbatim>\<open>xs || []\<close> on an optional array: every array, also the empty one, is truthy.\<close>

definition or_empty :: "'a list option \<Rightarrow> 'a list" where
  "or_empty xs = (case xs of None \<Rightarrow> [] | Some ys \<Rightarrow> ys)"

text \<open>A value inside a template literal or a string concatenation.\<close>

definition tmpl :: "string option \<Rightarrow> string" where
  "tmpl s = (case s of None \<Rightarrow> ''undefined'' | Some t \<Rightarrow> t)"

definition digit_char :: "nat \<Rightarrow> char" where
  "digit_char d = ''0123456789'' ! d"

fun show_nat :: "nat \<Rightarrow> string" where
  "show_nat n = (if n < 10 then [digit_char n] else show_nat (n div 10) @ [digit_char (n mod 10)])"

declare show_nat.simps [simp del]

definition lower_char :: "char \<Rightarrow> char" where
  "lower_char c =
     (case map_of (zip ''ABCDEFGHIJKLMNOPQRSTUVWXYZ'' ''abcdefghijklmnopqrstuvwxyz'') c of
        None \<Rightarrow> c | Some d \<Rightarrow> d)"

definition toLowerCase :: "string \<Rightarrow> string" where
  "toLowerCase s = map lower_char s"

fun str_includes :: "string \<Rightarrow> string \<Rightarrow> bool" where
  "str_includes [] pat = (pat = [])"
| "str_includes (c # cs) pat = (prefix pat (c # cs) \<or> str_includes cs pat)"

definition startsWith :: "string \<Rightarrow> string \<Rightarrow> bool" where
  "startsWith s pat = prefix pat s"

fun js_split :: "char \<Rightarrow> string \<Rightarrow> string list" where
  "js_split sep [] = [[]]"
| "js_split sep (c # cs) =
     (if c = sep then [] # js_split sep cs
      else (case js_split sep cs of [] \<Rightarrow> [[c]] | w # ws \<Rightarrow> (c # w) # ws))"

text \<open>
  Strings are UTF-8 byte strings. \<^verbatim>\<open>String.prototype.trim\<close> strips the white space and the
  line terminators of ECMAScript at both ends: the ASCII blanks and U+00A0, U+1680,
  U+2000 to U+200A, U+2028, U+2029, U+202F, U+205F, U+3000 and U+FEFF, here as their byte
  sequences.
\<close>

definition blank_sequences :: "string list" where
  "blank_sequences =
     [[CHR 0x20], [CHR 0x09], [CHR 0x0A], [CHR 0x0B], [CHR 0x0C], [CHR 0x0D],
      [CHR 0xC2, CHR 0xA0], [CHR 0xE1, CHR 0x9A, CHR 0x80],
      [CHR 0xE2, CHR 0x80, CHR 0x80], [CHR 0xE2, CHR 0x80, CHR 0x81],
      [CHR 0xE2, CHR 0x80, CHR 0x82], [CHR 0xE2, CHR 0x80, CHR 0x83],
      [CHR 0xE2, CHR 0x80, CHR 0x84], [CHR 0xE2, CHR 0x80, CHR 0x85],
      [CHR 0xE2, CHR 0x80, CHR 0x86], [CHR 0xE2, CHR 0x80, CHR 0x87],
      [CHR 0xE2, CHR 0x80, CHR 0x88], [CHR 0xE2, CHR 0x80, CHR 0x89],
      [CHR 0xE2, CHR 0x80, CHR 0x8A], [CHR 0xE2, CHR 0x80, CHR 0xA8],
      [CHR 0xE2, CHR 0x80, CHR 0xA9], [CHR 0xE2, CHR 0x80, CHR 0xAF],
      [CHR 0xE2, CHR 0x81, CHR 0x9F], [CHR 0xE3, CHR 0x80, CHR 0x80],
      [CHR 0xEF, CHR 0xBB, CHR 0xBF]]"

text \<open>Stripping at the front every leading occurrence of one of the given sequences.\<close>

function strip_leading :: "string list \<Rightarrow> string \<Rightarrow> string" where
  "strip_leading seqs s =
     (case find (\<lambda>b. b \<noteq> [] \<and> prefix b s) seqs of
        None \<Rightarrow> s
      | Some b \<Rightarrow> strip_leading seqs (drop (length b) s))"
  by pat_completeness auto
termination
proof (relation "measure (\<lambda>(seqs, s). length s)")
  show "wf (measure (\<lambda>(seqs, s). length s))" by simp
next
  fix seqs :: "string list" and s b :: string
  assume "find (\<lambda>b. b \<noteq> [] \<and> prefix b s) seqs = Some b"
  then have "b \<noteq> [] \<and> prefix b s" by (auto simp: find_Some_iff)
  then have "0 < length b" "length b \<le> length s" by (auto simp: prefix_def)
  then have "length s - length b < length s" by arith
  then show "((seqs, drop (length b) s), (seqs, s)) \<in> measure (\<lambda>(seqs, s). length s)"
    by simp
qed

declare strip_leading.simps [simp del]

definition trim :: "string \<Rightarrow> string" where
  "trim s = rev (strip_leading (map rev blank_sequences) (rev (strip_leading blank_sequences s)))"

definition js_lines :: "string \<Rightarrow> string list" where
  "js_lines repoTree = js_split (CHR 0x0A) repoTree"

text \<open>\<^verbatim>\<open>[...new Set(xs)]\<close>: the first occurrence of every element, in order.\<close>

definition set_add :: "'a list \<Rightarrow> 'a \<Rightarrow> 'a list" where
  "set_add acc x = (if x \<in> set acc then acc else acc @ [x])"

definition from_set :: "'a list \<Rightarrow> 'a list" where
  "from_set xs = foldl set_add [] xs"

fun js_join :: "string \<Rightarrow> string list \<Rightarrow> string" where
  "js_join sep [] = []"
| "js_join sep [x] = x"
| "js_join sep (x # y # ys) = x @ sep @ js_join sep (y # ys)"

subsection \<open>Object literals keyed by strings\<close>

text \<open>
  An object literal \<^verbatim>\<open>{}\<close> inherits the properties of \<^verbatim>\<open>Object.prototype\<close>: eleven functions
  and the accessor \<^verbatim>\<open>__proto__\<close>. Reading \<^verbatim>\<open>obj[k]\<close> for such a name \<open>k\<close> that is no own
  property finds the inherited value, which is truthy.
\<close>

definition inherited_functions :: "string list" where
  "inherited_functions =
     [''constructor'', ''hasOwnProperty'', ''isPrototypeOf'', ''propertyIsEnumerable'',
      ''toLocaleString'', ''toString'', ''valueOf'', ''__defineGetter__'', ''__defineSetter__'',
      ''__lookupGetter__'', ''__lookupSetter__'']"

definition inherited_keys :: "string list" where
  "inherited_keys = ''__proto__'' # inherited_functions"

text \<open>
  A built-in function as a string (V8): \<^verbatim>\<open>function toString() { [native code] }\<close>; the
  function \<^verbatim>\<open>Object.prototype.constructor\<close> is \<^verbatim>\<open>Object\<close>.
\<close>

definition native_source :: "string \<Rightarrow> string" where
  "native_source k =
     ''function '' @ (if k = ''constructor'' then ''Object'' else k) @ ''() { [native code] }''"

text \<open>
  The value of a property of a counter object: a number, or a string once an inherited
  function was read as the old value. \<^verbatim>\<open>counts[k] = (counts[k] || 0) + 1\<close> on an object that
  starts as \<^verbatim>\<open>{}\<close>, as a property list in insertion order: an own number is incremented;
  to an own string \<^verbatim>\<open>1\<close> is appended; an inherited function gives the own string of its
  source followed by \<^verbatim>\<open>1\<close>; for \<^verbatim>\<open>__proto__\<close> the assignment of a string to the accessor does
  nothing.
\<close>

datatype js_count = Count nat | Text string

fun bump :: "js_count \<Rightarrow> js_count" where
  "bump (Count n) = Count (n + 1)"
| "bump (Text t) = Text (t @ ''1'')"

fun count_inc :: "(string \<times> js_count) list \<Rightarrow> string \<Rightarrow> (string \<times> js_count) list" where
  "count_inc [] k =
     (if k = ''__proto__'' then []
      else if k \<in> set inherited_functions then [(k, Text (native_source k @ ''1''))]
      else [(k, Count 1)])"
| "count_inc (p # ps) k = (if fst p = k then (k, bump (snd p)) # ps else p # count_inc ps k)"

text \<open>
  \<^verbatim>\<open>a > b\<close> on two such values: numbers by size, strings by code units; a string beside a
  number converts to \<^verbatim>\<open>NaN\<close>, and the comparison is false.
\<close>

fun str_less :: "string \<Rightarrow> string \<Rightarrow> bool" where
  "str_less [] [] = False"
| "str_less [] (y # ys) = True"
| "str_less (x # xs) [] = False"
| "str_less (x # xs) (y # ys) =
     (if x = y then str_less xs ys else (of_char x :: nat) < of_char y)"

fun js_greater :: "js_count \<Rightarrow> js_count \<Rightarrow> bool" where
  "js_greater (Count a) (Count b) = (a > b)"
| "js_greater (Text a) (Text b) = str_less b a"
| "js_greater (Count a) (Text b) = False"
| "js_greater (Text a) (Count b) = False"

definition is_digit :: "char \<Rightarrow> bool" where
  "is_digit c = (c \<in> set ''0123456789'')"

definition digit_val :: "char \<Rightarrow> nat" where
  "digit_val c = (case map_of (zip ''0123456789'' [0..<10]) c of None \<Rightarrow> 0 | Some d \<Rightarrow> d)"

definition nat_of_string :: "string \<Rightarrow> nat" where
  "nat_of_string s = foldl (\<lambda>n c. 10 * n + digit_val c) 0 s"

text \<open>
  An array index is a canonical decimal numeral below \<open>2\<^sup>3\<^sup>2 - 1\<close>. The own keys of an object
  are enumerated with the array indices first, in ascending numeric order, then the
  other strings in insertion order.
\<close>

definition is_array_index :: "string \<Rightarrow> bool" where
  "is_array_index s =
     (s \<noteq> [] \<and> list_all is_digit s \<and> (s = ''0'' \<or> hd s \<noteq> CHR ''0'')
      \<and> nat_of_string s < 4294967295)"

definition Object_entries :: "(string \<times> 'a) list \<Rightarrow> (string \<times> 'a) list" where
  "Object_entries obj =
     sort_key (\<lambda>p. nat_of_string (fst p)) (filter (\<lambda>p. is_array_index (fst p)) obj)
     @ filter (\<lambda>p. \<not> is_array_index (fst p)) obj"

datatype js_error = TypeError

section \<open>CodebaseChunkingAgent\<close>

record chunk =
  chunk_id :: string
  chunk_name :: string
  chunk_description :: string
  chunk_files :: "string list"
  chunk_priority :: string
  chunk_dependencies :: "string list"
  chunk_type :: string

text \<open>
  A chunk as the model's JSON proposes it, an object of which any property may be missing;
  \<^verbatim>\<open>files\<close> is \<open>None\<close> when it is missing or not an array.
\<close>

record raw_chunk =
  raw_id :: "string option"
  raw_name :: "string option"
  raw_description :: "string option"
  raw_files :: "string list option"
  raw_priority :: "string option"
  raw_dependencies :: "string list option"
  raw_chunk_type :: "string option"

text \<open>The parsed reply of the chunking prompt; \<open>proposed_chunks\<close> is \<open>None\<close> when
  \<^verbatim>\<open>chunkingData.chunks\<close> is not an array.\<close>

record proposal =
  proposed_chunks :: "raw_chunk list option"
  chunking_strategy :: "string option"
  estimated_processing_time :: "string option"

record chunking_config =
  maxChunkSize :: nat
  maxChunks :: nat
  minChunkSize :: nat

record chunking_data =
  chunks :: "chunk list"
  chunkingStrategy :: string
  totalFiles :: nat
  chunkCount :: nat
  estimatedProcessingTime :: string

definition extractFilesFromTree :: "string \<Rightarrow> string list" where
  "extractFilesFromTree repoTree =
     filter (\<lambda>file. length file > 0)
       (map (\<lambda>line. trim (drop 2 line))
          (filter (\<lambda>line. startsWith line ''- '') (js_lines repoTree)))"

definition createSingleChunk :: "string list \<Rightarrow> chunking_data" where
  "createSingleChunk files_in =
     \<lparr> chunks = [\<lparr> chunk_id = ''single_chunk'', chunk_name = ''Complete Repository'',
                   chunk_description = ''All repository files in a single chunk'',
                   chunk_files = files_in, chunk_priority = ''high'',
                   chunk_dependencies = [], chunk_type = ''mixed'' \<rparr>],
       chunkingStrategy = ''Single chunk (repository too small for chunking)'',
       totalFiles = length files_in, chunkCount = 1,
       estimatedProcessingTime = ''30-60 seconds'' \<rparr>"

definition file_ext :: "string \<Rightarrow> string" where
  "file_ext file = toLowerCase (last (js_split CHR ''.'' file))"

text \<open>The \<^verbatim>\<open>if\<close>/\<^verbatim>\<open>else if\<close> chain of \<^verbatim>\<open>groupFilesByType\<close>: the group a file is pushed to.\<close>

definition group_of :: "string \<Rightarrow> string" where
  "group_of file =
     (let ext = file_ext file; filename = toLowerCase file; path = toLowerCase file in
      if str_includes path ''src/app'' \<or> str_includes path ''components'' \<or> ext = ''html''
         \<or> ext = ''scss'' \<or> ext = ''css'' then ''Frontend''
      else if str_includes path ''src/'' \<and> (ext = ''ts'' \<or> ext = ''js'' \<or> ext = ''py'' \<or> ext = ''java'')
        then ''Backend''
      else if str_includes filename ''test'' \<or> str_includes filename ''spec'' \<or> ext = ''test''
        then ''Tests''
      else if str_includes filename ''readme'' \<or> str_includes filename ''doc'' \<or> ext = ''md''
        then ''Documentation''
      else if str_includes filename ''config'' \<or> str_includes filename ''package''
         \<or> str_includes filename ''yarn'' \<or> ext = ''json'' \<or> ext = ''yml'' \<or> ext = ''yaml''
        then ''Configuration''
      else if str_includes path ''utils'' \<or> str_includes path ''helpers'' \<or> str_includes path ''common''
        then ''Utilities''
      else ''Other'')"

type_synonym file_groups = "(string \<times> string list) list"

definition empty_groups :: file_groups where
  "empty_groups = [(''Frontend'', []), (''Backend'', []), (''Configuration'', []), (''Tests'', []),
                   (''Documentation'', []), (''Utilities'', []), (''Other'', [])]"

fun group_push :: "string \<Rightarrow> string \<Rightarrow> file_groups \<Rightarrow> file_groups" where
  "group_push key file [] = []"
| "group_push key file (g # gs) =
     (if fst g = key then (fst g, snd g @ [file]) # gs else g # group_push key file gs)"

definition groupFilesByType :: "string list \<Rightarrow> file_groups" where
  "groupFilesByType files_in =
     filter (\<lambda>g. length (snd g) \<noteq> 0)
       (foldl (\<lambda>groups file. group_push (group_of file) file groups) empty_groups files_in)"

definition getPriorityForType :: "string \<Rightarrow> string" where
  "getPriorityForType ty =
     or_else (map_of [(''Frontend'', ''high''), (''Backend'', ''high''), (''Configuration'', ''medium''),
                      (''Tests'', ''low''), (''Documentation'', ''low''), (''Utilities'', ''medium''),
                      (''Other'', ''low'')] ty) ''low''"

text \<open>
  \<^verbatim>\<open>Math.min(maxChunkSize, Math.ceil(files.length / maxChunks))\<close>. With \<^verbatim>\<open>maxChunks = 0\<close> the
  quotient is \<^verbatim>\<open>Infinity\<close> and the minimum is \<^verbatim>\<open>maxChunkSize\<close> (for no files at all it is
  \<^verbatim>\<open>NaN\<close>, which no loop then reads, since every group is empty and deleted).
\<close>

definition fallbackChunkSize :: "chunking_config \<Rightarrow> nat \<Rightarrow> nat" where
  "fallbackChunkSize cfg n =
     (if maxChunks cfg = 0 then maxChunkSize cfg
      else min (maxChunkSize cfg) ((n + maxChunks cfg - 1) div maxChunks cfg))"

definition fallbackChunk :: "nat \<Rightarrow> string \<Rightarrow> string list \<Rightarrow> nat \<Rightarrow> nat \<Rightarrow> chunk" where
  "fallbackChunk chunkSize ty typeFiles i chunkId =
     \<lparr> chunk_id = ''chunk_'' @ show_nat chunkId,
       chunk_name = ty @ '' (Part '' @ show_nat (i div chunkSize + 1) @ '')'',
       chunk_description = ''Files from '' @ ty @ '' category'',
       chunk_files = take chunkSize (drop i typeFiles),
       chunk_priority = getPriorityForType ty,
       chunk_dependencies = [],
       chunk_type = toLowerCase ty \<rparr>"

text \<open>
  The inner loop \<^verbatim>\<open>for (let i = 0; i < typeFiles.length; i += chunkSize)\<close>. The state is the
  array \<^verbatim>\<open>chunks\<close> and the counter \<^verbatim>\<open>chunkId\<close>. With \<^verbatim>\<open>chunkSize = 0\<close> the loop never ends,
  which is the value \<open>None\<close>.
\<close>

partial_function (option) pageLoop ::
  "nat \<Rightarrow> string \<Rightarrow> string list \<Rightarrow> nat \<Rightarrow> chunk list \<times> nat \<Rightarrow> (chunk list \<times> nat) option" where
  "pageLoop chunkSize ty typeFiles i st =
     (if i < length typeFiles
      then pageLoop chunkSize ty typeFiles (i + chunkSize)
             (fst st @ [fallbackChunk chunkSize ty typeFiles i (snd st)], snd st + 1)
      else Some st)"

fun groupLoop :: "nat \<Rightarrow> file_groups \<Rightarrow> chunk list \<times> nat \<Rightarrow> (chunk list \<times> nat) option" where
  "groupLoop chunkSize [] st = Some st"
| "groupLoop chunkSize (g # gs) st =
     (case pageLoop chunkSize (fst g) (snd g) 0 st of
        None \<Rightarrow> None
      | Some st' \<Rightarrow> groupLoop chunkSize gs st')"

definition fallbackData :: "string list \<Rightarrow> chunk list \<Rightarrow> chunking_data" where
  "fallbackData files_in cs =
     \<lparr> chunks = cs, chunkingStrategy = ''Fallback rule-based chunking'',
       totalFiles = length files_in, chunkCount = length cs,
       estimatedProcessingTime =
         show_nat (length cs * 30) @ ''-'' @ show_nat (length cs * 60) @ '' seconds'' \<rparr>"

definition createFallbackChunks :: "chunking_config \<Rightarrow> string list \<Rightarrow> chunking_data option" where
  "createFallbackChunks cfg files_in =
     map_option (\<lambda>st. fallbackData files_in (fst st))
       (groupLoop (fallbackChunkSize cfg (length files_in)) (groupFilesByType files_in) ([], 1))"

text \<open>
  One step of the \<^verbatim>\<open>forEach\<close> of \<^verbatim>\<open>validateAndCleanChunks\<close>: a chunk without a files array
  and a chunk left without files are skipped, every other one is pushed with its defaults.
\<close>

definition validateStep :: "string list \<Rightarrow> chunk list \<Rightarrow> nat \<times> raw_chunk \<Rightarrow> chunk list" where
  "validateStep allFiles validatedChunks ic =
     (case raw_files (snd ic) of
        None \<Rightarrow> validatedChunks
      | Some fs \<Rightarrow>
          (let validFiles = filter (\<lambda>file. file \<in> set allFiles) fs in
           if length validFiles = 0 then validatedChunks
           else validatedChunks @
             [\<lparr> chunk_id = or_else (raw_id (snd ic)) (''chunk_'' @ show_nat (fst ic + 1)),
                chunk_name = or_else (raw_name (snd ic)) (''Chunk '' @ show_nat (fst ic + 1)),
                chunk_description = or_else (raw_description (snd ic)) ''Generated chunk'',
                chunk_files = validFiles,
                chunk_priority = or_else (raw_priority (snd ic)) ''medium'',
                chunk_dependencies = or_empty (raw_dependencies (snd ic)),
                chunk_type = or_else (raw_chunk_type (snd ic)) ''mixed'' \<rparr>]))"

text \<open>\<open>None\<close> is the thrown \<^verbatim>\<open>Error('Invalid chunks format')\<close>.\<close>

definition validateAndCleanChunks :: "raw_chunk list option \<Rightarrow> string list \<Rightarrow> chunk list option" where
  "validateAndCleanChunks cs allFiles =
     (case cs of
        None \<Rightarrow> None
      | Some rcs \<Rightarrow> Some (foldl (validateStep allFiles) [] (zip [0..<length rcs] rcs)))"

text \<open>
  \<^verbatim>\<open>formatFileStructureForChunking\<close>: the files are grouped by their first path segment in
  the object \<^verbatim>\<open>dirGroups\<close>; of every group the first 20 files are listed. For a segment that
  is the name of an inherited property, \<^verbatim>\<open>dirGroups[dir]\<close> is truthy and has no \<^verbatim>\<open>push\<close>:
  the call throws.
\<close>

definition dir_of :: "string \<Rightarrow> string" where
  "dir_of file =
     (let parts = js_split CHR ''/'' file in if length parts > 1 then hd parts else ''root'')"

fun dir_push :: "(string \<times> string list) list \<Rightarrow> string \<Rightarrow> string \<Rightarrow> (string \<times> string list) list" where
  "dir_push [] dir file = [(dir, [file])]"
| "dir_push (g # gs) dir file =
     (if fst g = dir then (dir, snd g @ [file]) # gs else g # dir_push gs dir file)"

definition format_dir :: "string \<times> string list \<Rightarrow> string" where
  "format_dir g =
     [CHR 0x0A] @ fst g @ ''/ ('' @ show_nat (length (snd g)) @ '' files):'' @ [CHR 0x0A]
     @ concat (map (\<lambda>file. ''  - '' @ file @ [CHR 0x0A]) (take 20 (snd g)))
     @ (if length (snd g) > 20
        then ''  ... and '' @ show_nat (length (snd g) - 20) @ '' more files'' @ [CHR 0x0A]
        else [])"

definition formatFileStructureForChunking :: "string list \<Rightarrow> js_error + string" where
  "formatFileStructureForChunking files_in =
     (if list_ex (\<lambda>file. dir_of file \<in> set inherited_keys) files_in then Inl TypeError
      else Inr (concat (map format_dir
                  (Object_entries (foldl (\<lambda>dirGroups file. dir_push dirGroups (dir_of file) file)
                                     [] files_in)))))"

text \<open>
  The chunking model is an external collaborator: \<open>llm repoName total structure\<close> is the
  parsed JSON of its reply to the prompt with these three values, \<open>None\<close> when the call
  throws or the reply holds no JSON. The result \<open>None\<close> of \<open>createIntelligentChunks\<close> is its
  \<^verbatim>\<open>{success: false}\<close>, which every exception inside it ends in.
\<close>

type_synonym chunking_model = "string \<Rightarrow> nat \<Rightarrow> string \<Rightarrow> proposal option"

definition createIntelligentChunks ::
  "chunking_model \<Rightarrow> string \<Rightarrow> string list \<Rightarrow> chunking_data option" where
  "createIntelligentChunks llm repoName files_in =
     (case formatFileStructureForChunking files_in of
        Inl e \<Rightarrow> None
      | Inr file_structure \<Rightarrow>
          (case llm repoName (length files_in) file_structure of
             None \<Rightarrow> None
           | Some chunkingData \<Rightarrow>
               (case validateAndCleanChunks (proposed_chunks chunkingData) files_in of
                  None \<Rightarrow> None
                | Some validatedChunks \<Rightarrow>
                    Some \<lparr> chunks = validatedChunks,
                           chunkingStrategy =
                             or_else (chunking_strategy chunkingData)
                               ''AI-based intelligent chunking'',
                           totalFiles = length files_in,
                           chunkCount = length validatedChunks,
                           estimatedProcessingTime =
                             or_else (estimated_processing_time chunkingData) ''Unknown'' \<rparr>)))"

text \<open>\<open>chunkRepository\<close> returns \<open>None\<close> only when the fallback loop does not end.\<close>

definition chunkRepository ::
  "chunking_config \<Rightarrow> chunking_model \<Rightarrow> string \<Rightarrow> string \<Rightarrow> chunking_data option" where
  "chunkRepository cfg llm repoName repoTree =
     (let files_in = extractFilesFromTree repoTree; total = length files_in in
      if total \<le> maxChunkSize cfg then Some (createSingleChunk files_in)
      else (case createIntelligentChunks llm repoName files_in of
              None \<Rightarrow> createFallbackChunks cfg files_in
            | Some chunkingResult \<Rightarrow> Some chunkingResult))"

section \<open>Analysis records\<close>

text \<open>
  The structured record an analysis produces, as the prompts of the agents describe it.
  Every property is optional: the record is parsed from a language model's JSON. The
  aggregated record of the whole repository has the same shape, with
  \<^verbatim>\<open>chunk_analysis_summary\<close> added.
\<close>

record component =
  comp_name :: "string option"
  comp_type :: "string option"
  technologies :: "string list option"
  comp_description :: "string option"
  comp_chunks :: "string list option"

record file_structure =
  main_directories :: "string list option"
  configuration_files :: "string list option"
  test_structure :: "string option"
  documentation_presence :: "string option"

record chunk_summary =
  total_chunks :: nat
  successful_chunks :: nat
  failed_chunks :: nat
  chunk_types :: "(string \<times> js_count) list"
  processing_time :: string

record analysis =
  architecture_pattern :: "string option"
  tech_stack :: "string list option"
  key_components :: "component list option"
  insights :: "string list option"
  dependencies :: "js_object list option"
  file_structure_analysis :: "file_structure option"
  scalability_notes :: "string option"
  security_considerations :: "string option"
  chunk_analysis_summary :: "chunk_summary option"

section \<open>ParallelAnalysisCoordinator\<close>

record coordinator_config =
  maxConcurrentChunks :: nat
  chunkTimeout :: nat
  retryAttempts :: nat

text \<open>The object \<^verbatim>\<open>analyzeChunk\<close> returns with \<^verbatim>\<open>success: true\<close>.\<close>

record chunk_success =
  chunkId :: string
  chunkIndex :: nat
  chunkName :: string
  chunkType :: string
  priority :: string
  fileCount :: nat
  analysis :: analysis
  diagram :: string
  diagramSuccess :: bool

text \<open>
  A result object: the successful one, or \<^verbatim>\<open>{success: false, error, chunkId, chunkIndex}\<close>.
\<close>

datatype chunk_result = Analysed chunk_success | NotAnalysed "string option" string nat

fun success :: "chunk_result \<Rightarrow> bool" where
  "success (Analysed r) = True"
| "success (NotAnalysed e cid idx) = False"

fun result_error :: "chunk_result \<Rightarrow> string option" where
  "result_error (Analysed r) = None"
| "result_error (NotAnalysed e cid idx) = e"

text \<open>
  What the two agents do for one unit in one attempt, which the coordinator cannot
  influence: the analysis succeeds (with its data, the diagram and the diagram builder's
  success flag), the analysis fails or throws (with the error message, if any), or nothing
  settles before \<^verbatim>\<open>chunkTimeout\<close>. The analyzer is a function of the chunk index, the
  number of the attempt and the chunk: every behaviour of the agents over a run is such a
  function, since each attempt of each unit is made at most once.
\<close>

datatype unit_behaviour =
  Analysis analysis "string option" bool
| Failure "string option"
| Timeout

type_synonym unit_analyzer = "nat \<Rightarrow> nat \<Rightarrow> chunk \<Rightarrow> unit_behaviour"

datatype attempt_outcome = Returned chunk_result | Thrown string

text \<open>
  \<^verbatim>\<open>processChunk\<close> races \<^verbatim>\<open>analyzeChunk\<close> against the timeout; \<^verbatim>\<open>analyzeChunk\<close> turns a
  failed analysis and every exception into a result with \<^verbatim>\<open>success: false\<close>.
\<close>

definition processChunk ::
  "coordinator_config \<Rightarrow> unit_analyzer \<Rightarrow> chunk \<Rightarrow> nat \<Rightarrow> nat \<Rightarrow> attempt_outcome" where
  "processChunk cfg an c idx attempt =
     (case an idx attempt c of
        Timeout \<Rightarrow>
          Thrown (''Chunk '' @ chunk_id c @ '' timed out after '' @ show_nat (chunkTimeout cfg) @ ''ms'')
      | Failure e \<Rightarrow> Returned (NotAnalysed e (chunk_id c) idx)
      | Analysis a d ok \<Rightarrow>
          Returned (Analysed
            \<lparr> chunkId = chunk_id c, chunkIndex = idx, chunkName = chunk_name c,
              chunkType = chunk_type c, priority = chunk_priority c,
              fileCount = length (chunk_files c), analysis = a,
              diagram = or_else d [], diagramSuccess = ok \<rparr>))"

text \<open>
  How a promise of \<^verbatim>\<open>processChunkWithRetry\<close> settles. The reason of a rejection is the
  thrown \<^verbatim>\<open>lastError\<close>: an \<^verbatim>\<open>Error\<close> with its message, or \<^verbatim>\<open>undefined\<close> (\<open>None\<close>) when the
  loop made no attempt.
\<close>

datatype settled = Fulfilled chunk_result | Rejected "string option"

text \<open>
  The loop \<^verbatim>\<open>for (let attempt = 1; attempt <= retryAttempts; attempt++)\<close> with its variable
  \<^verbatim>\<open>lastError\<close>. The second component of the result counts the calls of \<^verbatim>\<open>processChunk\<close>
  made; the code keeps no such counter. The backoff between attempts only waits.
\<close>

function retryLoop ::
  "coordinator_config \<Rightarrow> unit_analyzer \<Rightarrow> chunk \<Rightarrow> nat \<Rightarrow> nat \<Rightarrow> string option \<Rightarrow> settled \<times> nat" where
  "retryLoop cfg an c idx attempt lastError =
     (if attempt \<le> retryAttempts cfg
      then (case processChunk cfg an c idx attempt of
              Returned r \<Rightarrow>
                if success r then (Fulfilled r, attempt)
                else retryLoop cfg an c idx (attempt + 1)
                       (Some (or_else (result_error r) ''Chunk processing failed''))
            | Thrown msg \<Rightarrow> retryLoop cfg an c idx (attempt + 1) (Some msg))
      else (Rejected lastError, attempt - 1))"
  by pat_completeness auto
termination
  by (relation "measure (\<lambda>(cfg, an, c, idx, attempt, lastError). retryAttempts cfg + 1 - attempt)") auto

declare retryLoop.simps [simp del]

definition processChunkWithRetry ::
  "coordinator_config \<Rightarrow> unit_analyzer \<Rightarrow> chunk \<Rightarrow> nat \<Rightarrow> settled \<times> nat" where
  "processChunkWithRetry cfg an c idx = retryLoop cfg an c idx 1 None"

text \<open>
  The arrays \<^verbatim>\<open>results\<close> and \<^verbatim>\<open>errors\<close> of \<^verbatim>\<open>processChunksInParallel\<close>. \<open>attemptLog\<close> is not
  in the code: it records, for every unit whose promise settled, its chunk index and the
  number of calls of \<^verbatim>\<open>processChunk\<close> made for it.
\<close>

record coord_state =
  st_results :: "chunk_result list"
  st_errors :: "js_object list"
  attemptLog :: "(nat \<times> nat) list"

definition type_error_message :: string where
  "type_error_message =
     ''Cannot read properties of undefined (reading '' @ [CHR 0x27] @ ''message'' @ [CHR 0x27] @ '')''"

text \<open>
  One step of \<^verbatim>\<open>batchResults.forEach\<close>, at offset \<open>i\<close>. Reading \<^verbatim>\<open>result.reason.message\<close> of
  a rejection whose reason is \<^verbatim>\<open>undefined\<close> throws a \<^verbatim>\<open>TypeError\<close> (\<open>Inl\<close>, with the arrays
  as they are at that moment); \<^verbatim>\<open>reason.message || reason\<close> is the \<^verbatim>\<open>Error\<close> itself when
  its message is empty.
\<close>

definition settleStep :: "nat \<Rightarrow> coord_state \<Rightarrow> nat \<times> chunk \<times> settled \<Rightarrow> coord_state + coord_state" where
  "settleStep i st x =
     (case snd (snd x) of
        Fulfilled v \<Rightarrow> Inr (st\<lparr>st_results := st_results st @ [v]\<rparr>)
      | Rejected None \<Rightarrow> Inl st
      | Rejected (Some msg) \<Rightarrow>
          Inr (st\<lparr>st_errors := st_errors st @
                 [[(''chunkIndex'', JNumber (i + fst x)),
                   (''chunkId'', JString (chunk_id (fst (snd x)))),
                   (''error'', if msg \<noteq> [] then JString msg else JError msg)]]\<rparr>))"

fun settleLoop :: "nat \<Rightarrow> (nat \<times> chunk \<times> settled) list \<Rightarrow> coord_state \<Rightarrow> coord_state + coord_state" where
  "settleLoop i [] st = Inr st"
| "settleLoop i (x # xs) st =
     (case settleStep i st x of
        Inl st' \<Rightarrow> Inl st'
      | Inr st' \<Rightarrow> settleLoop i xs st')"

text \<open>
  One iteration of the batch loop: the promises of the batch all settle
  (\<^verbatim>\<open>Promise.allSettled\<close>), then the \<^verbatim>\<open>forEach\<close> sorts them into the two arrays; an
  exception of the \<^verbatim>\<open>forEach\<close> is caught and pushed as one error of the batch. The units of
  a batch share no state, so the order in which their attempts interleave does not show.
\<close>

definition processBatch ::
  "coordinator_config \<Rightarrow> unit_analyzer \<Rightarrow> chunk list \<Rightarrow> nat \<Rightarrow> coord_state \<Rightarrow> coord_state" where
  "processBatch cfg an cs i st =
     (let batch = take (maxConcurrentChunks cfg) (drop i cs);
          indexed = zip [0..<length batch] batch;
          batchPromises = map (\<lambda>p. processChunkWithRetry cfg an (snd p) (i + fst p)) indexed;
          st1 = st\<lparr>attemptLog := attemptLog st @
                    map (\<lambda>q. (i + fst (fst q), snd (snd q))) (zip indexed batchPromises)\<rparr>
      in case settleLoop i (map (\<lambda>q. (fst (fst q), snd (fst q), fst (snd q))) (zip indexed batchPromises)) st1 of
           Inr st' \<Rightarrow> st'
         | Inl st' \<Rightarrow>
             st'\<lparr>st_errors := st_errors st' @
                   [[(''batchIndex'', JNumber (i div maxConcurrentChunks cfg)),
                     (''error'', JString type_error_message)]]\<rparr>)"

text \<open>
  The loop \<^verbatim>\<open>for (let i = 0; i < chunks.length; i += maxConcurrentChunks)\<close>; with
  \<^verbatim>\<open>maxConcurrentChunks = 0\<close> and a chunk to process it never ends (\<open>None\<close>).
\<close>

partial_function (option) batchLoop ::
  "coordinator_config \<Rightarrow> unit_analyzer \<Rightarrow> chunk list \<Rightarrow> nat \<Rightarrow> coord_state \<Rightarrow> coord_state option" where
  "batchLoop cfg an cs i st =
     (if i < length cs
      then batchLoop cfg an cs (i + maxConcurrentChunks cfg) (processBatch cfg an cs i st)
      else Some st)"

text \<open>
  The returned object, without \<^verbatim>\<open>errorRate\<close> (a floating-point quotient). \<open>duration\<close> is
  the difference of two clock readings, a parameter here.
\<close>

record batch_outcome =
  results :: "chunk_result list"
  errors :: "js_object list"
  duration :: nat
  batch_success :: bool
  processedChunks :: nat
  totalChunks :: nat

definition runBatches :: "coordinator_config \<Rightarrow> unit_analyzer \<Rightarrow> chunk list \<Rightarrow> coord_state option" where
  "runBatches cfg an cs = batchLoop cfg an cs 0 \<lparr>st_results = [], st_errors = [], attemptLog = []\<rparr>"

definition processChunksInParallel ::
  "coordinator_config \<Rightarrow> unit_analyzer \<Rightarrow> nat \<Rightarrow> chunk list \<Rightarrow> batch_outcome option" where
  "processChunksInParallel cfg an elapsed cs =
     map_option (\<lambda>st.
        \<lparr> results = st_results st, errors = st_errors st, duration = elapsed,
          batch_success = (length (st_results st) > 0),
          processedChunks = length (st_results st),
          totalChunks = length cs \<rparr>)
       (runBatches cfg an cs)"


section \<open>ResultsAggregator\<close>

text \<open>\<^verbatim>\<open>chunkResults.results.filter(r => r.success)\<close>.\<close>

fun successful :: "chunk_result list \<Rightarrow> chunk_success list" where
  "successful [] = []"
| "successful (Analysed r # rs) = r # successful rs"
| "successful (NotAnalysed e cid idx # rs) = successful rs"

text \<open>\<^verbatim>\<open>xs.filter(Boolean)\<close> on optional strings.\<close>

definition filter_Boolean :: "string option list \<Rightarrow> string list" where
  "filter_Boolean xs = map the (filter truthy xs)"

subsection \<open>The rule-based merge\<close>

text \<open>
  \<^verbatim>\<open>Object.entries(patternCounts).reduce((a, b) => a[1] > b[1] ? a : b)[0]\<close>: the reduction
  starts from the first entry; the accumulator is kept only where its count is greater.
  Without an entry (every pattern is \<^verbatim>\<open>__proto__\<close>) \<^verbatim>\<open>reduce\<close> throws a \<^verbatim>\<open>TypeError\<close>.
\<close>

definition determineArchitecturePattern :: "chunk_success list \<Rightarrow> js_error + string" where
  "determineArchitecturePattern rs =
     (let patterns = filter_Boolean (map (\<lambda>r. architecture_pattern (analysis r)) rs) in
      if length patterns = 0 then Inr ''Unknown''
      else (case Object_entries (foldl count_inc [] patterns) of
              [] \<Rightarrow> Inl TypeError
            | e # es \<Rightarrow>
                Inr (fst (foldl (\<lambda>a b. if js_greater (snd a) (snd b) then a else b) e es))))"

definition consolidateTechStack :: "chunk_success list \<Rightarrow> string list" where
  "consolidateTechStack rs =
     foldl (\<lambda>allTech r. foldl set_add allTech (or_empty (tech_stack (analysis r)))) [] rs"

text \<open>
  The \<^verbatim>\<open>Map\<close> of \<^verbatim>\<open>mergeComponents\<close>, in insertion order, and the body of its inner
  \<^verbatim>\<open>forEach\<close>. Spreading \<^verbatim>\<open>existing.technologies\<close> throws when the component stored first had
  no such property.
\<close>

type_synonym component_map = "(string \<times> component) list"

definition component_key :: "component \<Rightarrow> string" where
  "component_key cmpt = tmpl (comp_name cmpt) @ ''-'' @ tmpl (comp_type cmpt)"

fun map_set :: "string \<Rightarrow> 'a \<Rightarrow> (string \<times> 'a) list \<Rightarrow> (string \<times> 'a) list" where
  "map_set k v [] = [(k, v)]"
| "map_set k v (p # ps) = (if fst p = k then (k, v) # ps else p # map_set k v ps)"

definition mergeStep :: "string \<Rightarrow> component_map \<Rightarrow> component \<Rightarrow> js_error + component_map" where
  "mergeStep cid componentMap cmpt =
     (let key = component_key cmpt in
      case map_of componentMap key of
        None \<Rightarrow> Inr (componentMap @ [(key, cmpt\<lparr>comp_chunks := Some [cid]\<rparr>)])
      | Some existing \<Rightarrow>
          (case technologies existing of
             None \<Rightarrow> Inl TypeError
           | Some ts \<Rightarrow>
               Inr (map_set key
                     (existing\<lparr>technologies := Some (from_set (ts @ or_empty (technologies cmpt))),
                               comp_chunks := Some (from_set (or_empty (comp_chunks existing) @ [cid])),
                               comp_description :=
                                 Some (tmpl (comp_description existing) @ ''; ''
                                        @ or_else (comp_description cmpt) [])\<rparr>)
                     componentMap)))"

fun mergeInner :: "string \<Rightarrow> component_map \<Rightarrow> component list \<Rightarrow> js_error + component_map" where
  "mergeInner cid componentMap [] = Inr componentMap"
| "mergeInner cid componentMap (cmpt # comps) =
     (case mergeStep cid componentMap cmpt of
        Inl e \<Rightarrow> Inl e
      | Inr m \<Rightarrow> mergeInner cid m comps)"

fun mergeOuter :: "component_map \<Rightarrow> chunk_success list \<Rightarrow> js_error + component_map" where
  "mergeOuter componentMap [] = Inr componentMap"
| "mergeOuter componentMap (r # rs) =
     (case mergeInner (chunkId r) componentMap (or_empty (key_components (analysis r))) of
        Inl e \<Rightarrow> Inl e
      | Inr m \<Rightarrow> mergeOuter m rs)"

definition mergeComponents :: "chunk_success list \<Rightarrow> js_error + component list" where
  "mergeComponents rs =
     (case mergeOuter [] rs of Inl e \<Rightarrow> Inl e | Inr m \<Rightarrow> Inr (map snd m))"

definition consolidateInsights :: "chunk_success list \<Rightarrow> string list" where
  "consolidateInsights rs =
     foldl (\<lambda>allInsights r. foldl set_add allInsights (or_empty (insights (analysis r)))) [] rs"

text \<open>
  \<^verbatim>\<open>allDeps.push({...dep, strength: 'medium'})\<close> for every dependency of every result, in
  order.
\<close>

definition mergeDependencies :: "chunk_success list \<Rightarrow> js_object list" where
  "mergeDependencies rs =
     foldl (\<lambda>allDeps r.
              foldl (\<lambda>acc dep. acc @ [obj_set ''strength'' (JString ''medium'') dep])
                allDeps (or_empty (dependencies (analysis r))))
       [] rs"

record fs_state =
  allDirs :: "string list"
  allConfigs :: "string list"
  testStructure :: string
  docPresence :: string

definition fsStep :: "fs_state \<Rightarrow> chunk_success \<Rightarrow> fs_state" where
  "fsStep st r =
     (let fs = (case file_structure_analysis (analysis r) of
                  None \<Rightarrow> \<lparr>main_directories = None, configuration_files = None,
                            test_structure = None, documentation_presence = None\<rparr>
                | Some f \<Rightarrow> f)
      in \<lparr> allDirs = foldl set_add (allDirs st) (or_empty (main_directories fs)),
           allConfigs = foldl set_add (allConfigs st) (or_empty (configuration_files fs)),
           testStructure = (if truthy (test_structure fs) then the (test_structure fs)
                            else testStructure st),
           docPresence = (if truthy (documentation_presence fs) then the (documentation_presence fs)
                          else docPresence st) \<rparr>)"

definition consolidateFileStructure :: "chunk_success list \<Rightarrow> file_structure" where
  "consolidateFileStructure rs =
     (let st = foldl fsStep \<lparr>allDirs = [], allConfigs = [], testStructure = [], docPresence = []\<rparr> rs
      in \<lparr> main_directories = Some (allDirs st),
           configuration_files = Some (allConfigs st),
           test_structure = Some (or_else (Some (testStructure st)) ''Unknown''),
           documentation_presence = Some (or_else (Some (docPresence st)) ''Unknown'') \<rparr>)"

definition consolidateScalabilityNotes :: "chunk_success list \<Rightarrow> string" where
  "consolidateScalabilityNotes rs =
     or_else (Some (js_join ''; '' (filter_Boolean (map (\<lambda>r. scalability_notes (analysis r)) rs))))
       ''No scalability analysis available''"

definition consolidateSecurityConsiderations :: "chunk_success list \<Rightarrow> string" where
  "consolidateSecurityConsiderations rs =
     or_else (Some (js_join ''; '' (filter_Boolean (map (\<lambda>r. security_considerations (analysis r)) rs))))
       ''No security analysis available''"

definition analyzeChunkTypes :: "chunk_success list \<Rightarrow> (string \<times> js_count) list" where
  "analyzeChunkTypes rs = foldl count_inc [] (map (\<lambda>r. or_else (Some (chunkType r)) ''unknown'') rs)"

definition format_processing_time :: "nat \<Rightarrow> string" where
  "format_processing_time d =
     show_nat (d div 60000) @ '' minutes '' @ show_nat ((d mod 60000) div 1000) @ '' seconds''"

text \<open>The object an aggregation returns: its data and its metadata.\<close>

record aggregation =
  agg_success :: bool
  agg_data :: analysis
  aggregationMethod :: string
  successfulChunks :: nat
  agg_totalChunks :: nat
  processingTime :: nat

text \<open>
  The object literal of \<^verbatim>\<open>createRuleBasedAggregation\<close> is evaluated property by property;
  the architecture pattern and the component merge can throw.
\<close>

definition createRuleBasedAggregation ::
  "chunk_success list \<Rightarrow> batch_outcome \<Rightarrow> js_error + aggregation" where
  "createRuleBasedAggregation successfulResults chunkResults =
     (case determineArchitecturePattern successfulResults of
        Inl e \<Rightarrow> Inl e
      | Inr pattern \<Rightarrow>
     (case mergeComponents successfulResults of
        Inl e \<Rightarrow> Inl e
      | Inr comps \<Rightarrow>
          Inr \<lparr> agg_success = True,
                agg_data =
                  \<lparr> architecture_pattern = Some pattern,
                    tech_stack = Some (consolidateTechStack successfulResults),
                    key_components = Some comps,
                    insights = Some (consolidateInsights successfulResults),
                    dependencies = Some (mergeDependencies successfulResults),
                    file_structure_analysis = Some (consolidateFileStructure successfulResults),
                    scalability_notes = Some (consolidateScalabilityNotes successfulResults),
                    security_considerations =
                      Some (consolidateSecurityConsiderations successfulResults),
                    chunk_analysis_summary =
                      Some \<lparr> total_chunks = length (results chunkResults) + length (errors chunkResults),
                             successful_chunks = length successfulResults,
                             failed_chunks = length (errors chunkResults),
                             chunk_types = analyzeChunkTypes successfulResults,
                             processing_time = format_processing_time (duration chunkResults) \<rparr> \<rparr>,
                aggregationMethod = ''Rule-based fallback aggregation'',
                successfulChunks = length successfulResults,
                agg_totalChunks = length (results chunkResults) + length (errors chunkResults),
                processingTime = duration chunkResults \<rparr>))"

definition createFallbackAggregation :: "batch_outcome \<Rightarrow> aggregation" where
  "createFallbackAggregation chunkResults =
     \<lparr> agg_success = True,
       agg_data =
         \<lparr> architecture_pattern = Some ''Unknown'',
           tech_stack = Some [],
           key_components = Some [],
           insights = Some [''Analysis failed - no successful chunks to aggregate''],
           dependencies = Some [],
           file_structure_analysis =
             Some \<lparr> main_directories = Some [], configuration_files = Some [],
                    test_structure = Some ''Unknown'', documentation_presence = Some ''Unknown'' \<rparr>,
           scalability_notes = Some ''Analysis incomplete'',
           security_considerations = Some ''Analysis incomplete'',
           chunk_analysis_summary =
             Some \<lparr> total_chunks = length (results chunkResults) + length (errors chunkResults),
                    successful_chunks = 0,
                    failed_chunks = length (results chunkResults) + length (errors chunkResults),
                    chunk_types = [],
                    processing_time = format_processing_time (duration chunkResults) \<rparr> \<rparr>,
       aggregationMethod = ''Fallback aggregation'',
       successfulChunks = 0,
       agg_totalChunks = length (results chunkResults) + length (errors chunkResults),
       processingTime = duration chunkResults \<rparr>"

text \<open>
  The synthesis model is an external collaborator: \<open>synth successfulResults chunkResults\<close>
  is the parsed JSON of its reply (\<open>None\<close> when the call throws or the reply holds no
  JSON), and \<^verbatim>\<open>createIntelligentAggregation\<close> returns that JSON as its data. Its result
  \<open>None\<close> is \<^verbatim>\<open>{success: false}\<close>.
\<close>

type_synonym synthesizer = "chunk_success list \<Rightarrow> batch_outcome \<Rightarrow> analysis option"

definition createIntelligentAggregation ::
  "synthesizer \<Rightarrow> chunk_success list \<Rightarrow> batch_outcome \<Rightarrow> aggregation option" where
  "createIntelligentAggregation synth successfulResults chunkResults =
     (case synth successfulResults chunkResults of
        None \<Rightarrow> None
      | Some aggregatedData \<Rightarrow>
          Some \<lparr> agg_success = True,
                 agg_data = aggregatedData,
                 aggregationMethod = ''AI-based intelligent aggregation'',
                 successfulChunks = length successfulResults,
                 agg_totalChunks = length (results chunkResults) + length (errors chunkResults),
                 processingTime = duration chunkResults \<rparr>)"

definition aggregateResults :: "synthesizer \<Rightarrow> batch_outcome \<Rightarrow> aggregation" where
  "aggregateResults synth chunkResults =
     (let successfulResults = successful (results chunkResults) in
      if length successfulResults = 0 then createFallbackAggregation chunkResults
      else (case createIntelligentAggregation synth successfulResults chunkResults of
              Some aggregationResult \<Rightarrow> aggregationResult
            | None \<Rightarrow>
                (case createRuleBasedAggregation successfulResults chunkResults of
                   Inr r \<Rightarrow> r
                 | Inl e \<Rightarrow> createFallbackAggregation chunkResults)))"

section \<open>AgentOrchestrator\<close>







text \<open>
  The \<^verbatim>\<open>data\<close> of a response, without its \<^verbatim>\<open>raw\<close> debugging strings. \<^verbatim>\<open>x || {}\<close> is \<open>None\<close>
  for a missing \<open>x\<close>; \<open>chunkAnalysisSummary\<close> is \<open>None\<close> where the response has no such
  property and \<open>Some None\<close> where it is \<^verbatim>\<open>{}\<close>.
\<close>

record final_data =
  architecture :: string
  techStack :: "string list"
  fd_insights :: "string list"
  keyComponents :: "component list"
  fd_dependencies :: "js_object list"
  fileStructureAnalysis :: "file_structure option"
  scalabilityNotes :: string
  securityConsiderations :: string
  mermaid :: string
  chunkAnalysisSummary :: "chunk_summary option option"









definition combineChunkedResults :: "analysis \<Rightarrow> string \<Rightarrow> final_data" where
  "combineChunkedResults aggregatedData mermaidDiagram =
     \<lparr> architecture = or_else (architecture_pattern aggregatedData) ''Unknown'',
       techStack = or_empty (tech_stack aggregatedData),
       fd_insights = or_empty (insights aggregatedData),
       keyComponents = or_empty (key_components aggregatedData),
       fd_dependencies = or_empty (dependencies aggregatedData),
       fileStructureAnalysis = file_structure_analysis aggregatedData,
       scalabilityNotes = or_else (scalability_notes aggregatedData) [],
       securityConsiderations = or_else (security_considerations aggregatedData) [],
       mermaid = mermaidDiagram,
       chunkAnalysisSummary = Some (chunk_analysis_summary aggregatedData) \<rparr>"




section \<open>Auxiliary definitions for the properties\<close>

text \<open>All dependency edges of the successful results, in the order the merge visits them.\<close>

definition all_dependencies :: "chunk_success list \<Rightarrow> js_object list" where
  "all_dependencies rs = concat (map (\<lambda>r. or_empty (dependencies (analysis r))) rs)"

text \<open>An analysis with no property set, and a successful result of a unit around an analysis.\<close>

definition no_analysis :: analysis where
  "no_analysis =
     \<lparr> architecture_pattern = None, tech_stack = None, key_components = None,
       insights = None, dependencies = None, file_structure_analysis = None,
       scalability_notes = None, security_considerations = None,
       chunk_analysis_summary = None \<rparr>"

definition unit_result :: "string \<Rightarrow> analysis \<Rightarrow> chunk_success" where
  "unit_result cid a =
     \<lparr> chunkId = cid, chunkIndex = 0, chunkName = ''Unit'', chunkType = ''backend'',
       priority = ''high'', fileCount = 1, analysis = a, diagram = [], diagramSuccess = True \<rparr>"

text \<open>Two components with different names and types whose keys coincide.\<close>

definition component_ab_c :: component where
  "component_ab_c =
     \<lparr> comp_name = Some ''a-b'', comp_type = Some ''c'', technologies = Some [''x''],
       comp_description = Some ''first'', comp_chunks = None \<rparr>"

definition component_a_bc :: component where
  "component_a_bc =
     \<lparr> comp_name = Some ''a'', comp_type = Some ''b-c'', technologies = Some [''y''],
       comp_description = Some ''second'', comp_chunks = None \<rparr>"

text \<open>The error entry the coordinator records for a unit that failed on its last attempt.\<close>

definition failed_entry :: "nat \<Rightarrow> js_object" where
  "failed_entry idx =
     [(''chunkIndex'', JNumber idx), (''chunkId'', JString (''chunk_'' @ show_nat (idx + 1))),
      (''error'', JString ''Chunk processing failed'')]"

text \<open>A batch of six units of which none succeeded, and one of three of which two did.\<close>

definition six_failed :: batch_outcome where
  "six_failed =
     \<lparr> results = [], errors = map failed_entry [0..<6], duration = 125000,
       batch_success = False, processedChunks = 0, totalChunks = 6 \<rparr>"

definition two_of_three :: batch_outcome where
  "two_of_three =
     \<lparr> results = [Analysed (unit_result ''chunk_1'' no_analysis),
                  Analysed (unit_result ''chunk_3'' no_analysis)],
       errors = [failed_entry 1], duration = 125000,
       batch_success = True, processedChunks = 2, totalChunks = 3 \<rparr>"

text \<open>
  A synthesis model that answers with the summary block of the example in its prompt.
\<close>

definition model_summary :: chunk_summary where
  "model_summary =
     \<lparr> total_chunks = 8, successful_chunks = 7, failed_chunks = 1,
       chunk_types = [(''frontend'', Count 3), (''backend'', Count 2), (''database'', Count 1),
                      (''tests'', Count 1)],
       processing_time = ''4 minutes 32 seconds'' \<rparr>"

definition model_reply :: synthesizer where
  "model_reply rs co =
     Some (no_analysis\<lparr>architecture_pattern := Some ''MVC'',
                       chunk_analysis_summary := Some model_summary\<rparr>)"

text \<open>The summary block as the rule-based merge computes it from the batch outcome.\<close>

definition counted_summary :: "batch_outcome \<Rightarrow> chunk_summary" where
  "counted_summary chunkResults =
     \<lparr> total_chunks = length (results chunkResults) + length (errors chunkResults),
       successful_chunks = length (successful (results chunkResults)),
       failed_chunks = length (errors chunkResults),
       chunk_types = analyzeChunkTypes (successful (results chunkResults)),
       processing_time = format_processing_time (duration chunkResults) \<rparr>"

text \<open>
  The summary block of the degenerate record, and the condition under which the rule-based
  merge throws: the reduction over the counted labels or the merge of the components does.
\<close>

definition degenerate_summary :: "batch_outcome \<Rightarrow> chunk_summary" where
  "degenerate_summary chunkResults =
     \<lparr> total_chunks = length (results chunkResults) + length (errors chunkResults),
       successful_chunks = 0,
       failed_chunks = length (results chunkResults) + length (errors chunkResults),
       chunk_types = [],
       processing_time = format_processing_time (duration chunkResults) \<rparr>"

definition rule_based_throws :: "chunk_success list \<Rightarrow> bool" where
  "rule_based_throws rs = (isl (determineArchitecturePattern rs) \<or> isl (mergeComponents rs))"

text \<open>
  Auxiliary notions for the architecture label: the keys on which the counter object holds
  numbers only and which keep their insertion order, the truthy labels of the successful
  results in order, the step of the reduction, and the counter object restricted to such
  keys, with numbers as values.
\<close>

definition ordinary_key :: "string \<Rightarrow> bool" where
  "ordinary_key s = (\<not> is_array_index s \<and> s \<notin> set inherited_keys)"

definition labels :: "chunk_success list \<Rightarrow> string list" where
  "labels rs = filter_Boolean (map (\<lambda>r. architecture_pattern (analysis r)) rs)"

definition pick :: "string \<times> nat \<Rightarrow> string \<times> nat \<Rightarrow> string \<times> nat" where
  "pick a b = (if snd a > snd b then a else b)"

definition labelled :: "string \<Rightarrow> chunk_success" where
  "labelled l = unit_result ''chunk'' (no_analysis\<lparr>architecture_pattern := Some l\<rparr>)"

fun plain_inc :: "(string \<times> nat) list \<Rightarrow> string \<Rightarrow> (string \<times> nat) list" where
  "plain_inc [] k = [(k, 1)]"
| "plain_inc (p # ps) k = (if fst p = k then (k, snd p + 1) # ps else p # plain_inc ps k)"

definition as_count :: "string \<times> nat \<Rightarrow> string \<times> js_count" where
  "as_count p = (fst p, Count (snd p))"

text \<open>
  Two batches on which the rule-based merge throws: one successful unit labelled
  \<^verbatim>\<open>__proto__\<close>, and two successful units with the same component, which has no
  \<^verbatim>\<open>technologies\<close>.
\<close>

definition proto_outcome :: batch_outcome where
  "proto_outcome =
     \<lparr> results = [Analysed (labelled ''__proto__'')], errors = [], duration = 0,
       batch_success = True, processedChunks = 1, totalChunks = 1 \<rparr>"

definition bare_component :: component where
  "bare_component =
     \<lparr> comp_name = Some ''API'', comp_type = Some ''service'', technologies = None,
       comp_description = None, comp_chunks = None \<rparr>"

definition bare_outcome :: batch_outcome where
  "bare_outcome =
     \<lparr> results = [Analysed (unit_result ''chunk_1'' (no_analysis\<lparr>key_components := Some [bare_component]\<rparr>)),
                  Analysed (unit_result ''chunk_2'' (no_analysis\<lparr>key_components := Some [bare_component]\<rparr>))],
       errors = [], duration = 0, batch_success = True, processedChunks = 2, totalChunks = 2 \<rparr>"


fun fulfilled :: "settled \<Rightarrow> bool" where
  "fulfilled (Fulfilled r) = True"
| "fulfilled (Rejected e) = False"

definition unit_settled :: "coordinator_config \<Rightarrow> unit_analyzer \<Rightarrow> chunk list \<Rightarrow> nat \<Rightarrow> settled \<times> nat" where
  "unit_settled cfg an cs j = processChunkWithRetry cfg an (cs ! j) j"

definition error_entry :: "nat \<Rightarrow> string \<Rightarrow> string \<Rightarrow> js_object" where
  "error_entry idx cid msg = [(''chunkIndex'', JNumber idx), (''chunkId'', JString cid), (''error'', JString msg)]"

text \<open>
  The effect on the two arrays (and on the log of attempts) of settling the units from
  index \<open>i\<close> up to index \<open>k\<close>, in a run in which no promise is rejected with \<^verbatim>\<open>undefined\<close>.
\<close>

definition advanced ::
  "coordinator_config \<Rightarrow> unit_analyzer \<Rightarrow> chunk list \<Rightarrow> nat \<Rightarrow> nat
     \<Rightarrow> coord_state \<Rightarrow> coord_state \<Rightarrow> bool" where
  "advanced cfg an cs i k st st' =
     (attemptLog st' = attemptLog st @ map (\<lambda>j. (j, snd (unit_settled cfg an cs j))) [i..<k]
      \<and> length (st_results st')
          = length (st_results st)
            + length (filter (\<lambda>j. fulfilled (fst (unit_settled cfg an cs j))) [i..<k])
      \<and> length (st_errors st')
          = length (st_errors st)
            + length (filter (\<lambda>j. \<not> fulfilled (fst (unit_settled cfg an cs j))) [i..<k])
      \<and> set (st_errors st) \<subseteq> set (st_errors st')
      \<and> list_all (\<lambda>j. case fst (unit_settled cfg an cs j) of
                          Fulfilled r \<Rightarrow> True
                        | Rejected None \<Rightarrow> True
                        | Rejected (Some msg) \<Rightarrow>
                            error_entry j (chunk_id (cs ! j)) msg \<in> set (st_errors st'))
           [i..<k]
      \<and> (list_all success (st_results st') \<or> \<not> list_all success (st_results st)))"

text \<open>
  Five units, at most three at a time, two attempts each; the analysis of the third unit
  (index 2) fails on every attempt, every other analysis succeeds at once.
\<close>

definition scenario_config :: coordinator_config where
  "scenario_config = \<lparr> maxConcurrentChunks = 3, chunkTimeout = 120000, retryAttempts = 2 \<rparr>"

definition scenario_unit :: "nat \<Rightarrow> chunk" where
  "scenario_unit k =
     \<lparr> chunk_id = ''chunk_'' @ show_nat k, chunk_name = ''Unit'', chunk_description = [],
       chunk_files = [''src/file'' @ show_nat k @ ''.js''], chunk_priority = ''high'',
       chunk_dependencies = [], chunk_type = ''backend'' \<rparr>"

definition scenario_units :: "chunk list" where
  "scenario_units = map scenario_unit [1, 2, 3, 4, 5]"

definition scenario_analyzer :: unit_analyzer where
  "scenario_analyzer idx attempt c =
     (if idx = 2 then Failure (Some ''analysis failed'') else Analysis no_analysis None True)"

text \<open>The empty arrays a run starts from.\<close>

definition initial_state :: coord_state where
  "initial_state = \<lparr>st_results = [], st_errors = [], attemptLog = []\<rparr>"

text \<open>The same policy with \<^verbatim>\<open>retryAttempts = 0\<close>.\<close>

definition no_attempts_config :: coordinator_config where
  "no_attempts_config = \<lparr> maxConcurrentChunks = 3, chunkTimeout = 120000, retryAttempts = 0 \<rparr>"

text \<open>
  Notions about a decomposition: the keys of the groups; the number of pages of a group of
  \<open>n\<close> files; a unit of the fallback (not empty, at most \<open>chunkSize\<close> files); a unit as the
  validation leaves it (not empty, only files of the listing); the files of all units of
  a decomposition, in order.
\<close>

definition group_keys :: "string list" where
  "group_keys = map fst empty_groups"

definition pages :: "nat \<Rightarrow> nat \<Rightarrow> nat" where
  "pages chunkSize n = (n + chunkSize - 1) div chunkSize"

definition unit_ok :: "nat \<Rightarrow> chunk \<Rightarrow> bool" where
  "unit_ok chunkSize c = (chunk_files c \<noteq> [] \<and> length (chunk_files c) \<le> chunkSize)"

definition valid_unit :: "string list \<Rightarrow> chunk \<Rightarrow> bool" where
  "valid_unit allFiles c = (chunk_files c \<noteq> [] \<and> set (chunk_files c) \<subseteq> set allFiles)"

definition all_items :: "chunking_data \<Rightarrow> string list" where
  "all_items d = concat (map chunk_files (chunks d))"

text \<open>
  The list of chunks the chunking model hands to \<^verbatim>\<open>validateAndCleanChunks\<close>, if any; and of
  such a list the file arrays, each cut down to the files of the listing, without those
  left empty.
\<close>

definition proposal_of :: "chunking_model \<Rightarrow> string \<Rightarrow> string list \<Rightarrow> raw_chunk list option" where
  "proposal_of llm repoName files_in =
     (case formatFileStructureForChunking files_in of
        Inl e \<Rightarrow> None
      | Inr file_structure \<Rightarrow>
          (case llm repoName (length files_in) file_structure of
             None \<Rightarrow> None
           | Some chunkingData \<Rightarrow> proposed_chunks chunkingData))"

definition kept_files :: "string list \<Rightarrow> raw_chunk list \<Rightarrow> string list list" where
  "kept_files allFiles rcs =
     filter (\<lambda>validFiles. validFiles \<noteq> [])
       (map (filter (\<lambda>file. file \<in> set allFiles)) (List.map_filter raw_files rcs))"

text \<open>
  A listing of three files under a policy of at most two files per chunk, and chunking
  models that propose the given lists of files as chunks, or fail.
\<close>

definition small_config :: chunking_config where
  "small_config = \<lparr> maxChunkSize = 2, maxChunks = 10, minChunkSize = 1 \<rparr>"

definition three_files :: string where
  "three_files = ''Files (3):'' @ [CHR 0x0A] @ ''- a.js'' @ [CHR 0x0A] @ ''- b.js'' @ [CHR 0x0A] @ ''- c.js''"

definition proposed :: "string list \<Rightarrow> raw_chunk" where
  "proposed fs = \<lparr> raw_id = None, raw_name = None, raw_description = None, raw_files = Some fs,
       raw_priority = None, raw_dependencies = None, raw_chunk_type = None \<rparr>"

definition model_proposes :: "string list list \<Rightarrow> chunking_model" where
  "model_proposes fss repoName total_files file_structure =
     Some \<lparr> proposed_chunks = Some (map proposed fss), chunking_strategy = None,
            estimated_processing_time = None \<rparr>"

definition model_fails :: chunking_model where
  "model_fails repoName total_files file_structure = None"

text \<open>A listing of three files of which one lies in a directory named \<^verbatim>\<open>constructor\<close>.\<close>

definition inherited_dir_files :: string where
  "inherited_dir_files =
     ''Files (3):'' @ [CHR 0x0A] @ ''- constructor/a.js'' @ [CHR 0x0A] @ ''- b.js'' @ [CHR 0x0A] @ ''- c.js''"

text \<open>
  The default policy (200 files per chunk, 10 chunks), and a listing of 800 files: 799
  files under \<^verbatim>\<open>src/app\<close> and a \<^verbatim>\<open>LICENSE\<close>.
\<close>

definition default_chunking :: chunking_config where
  "default_chunking = \<lparr> maxChunkSize = 200, maxChunks = 10, minChunkSize = 50 \<rparr>"

definition frontend_file :: "nat \<Rightarrow> string" where
  "frontend_file k = ''src/app/file'' @ show_nat k @ ''.ts''"

definition files_800 :: "string list" where
  "files_800 = map frontend_file [0..<799] @ [''LICENSE'']"







section \<open>The decomposition\<close>

lemma group_of_key: "group_of f \<in> set group_keys"
  by (simp add: group_of_def group_keys_def empty_groups_def Let_def)

lemma group_push_map:
  "distinct (map fst gs) \<Longrightarrow>
     group_push key f gs = map (\<lambda>g. (fst g, if fst g = key then snd g @ [f] else snd g)) gs"
proof (induction gs)
  case Nil
  show ?case by simp
next
  case (Cons g gs)
  show ?case
  proof (cases "fst g = key")
    case True
    then have "key \<notin> fst ` set gs" using Cons.prems by simp
    then have "\<forall>h\<in>set gs. fst h \<noteq> key" by (auto simp: image_iff)
    then have "map (\<lambda>g. (fst g, if fst g = key then snd g @ [f] else snd g)) gs = gs"
      by (induction gs) auto
    then show ?thesis using True by simp
  next
    case False
    then show ?thesis using Cons by simp
  qed
qed

lemma push_all:
  "distinct (map fst gs) \<Longrightarrow>
     foldl (\<lambda>groups file. group_push (group_of file) file groups) gs fs
       = map (\<lambda>g. (fst g, snd g @ filter (\<lambda>f. group_of f = fst g) fs)) gs"
proof (induction fs arbitrary: gs)
  case Nil
  show ?case by simp
next
  case (Cons f fs)
  have d: "distinct (map fst (group_push (group_of f) f gs))"
    using Cons.prems by (simp add: group_push_map comp_def)
  show ?case
    using Cons.IH [OF d] Cons.prems
    by (simp add: group_push_map comp_def)
qed

lemma groupFilesByType_eq:
  "groupFilesByType fs =
     filter (\<lambda>g. snd g \<noteq> []) (map (\<lambda>k. (k, filter (\<lambda>f. group_of f = k) fs)) group_keys)"
proof -
  have "distinct (map fst empty_groups)" by (simp add: empty_groups_def)
  from push_all [OF this, of fs] show ?thesis
    by (simp add: groupFilesByType_def group_keys_def empty_groups_def)
qed

lemma concat_nonempty: "concat (filter (\<lambda>xs. xs \<noteq> []) xss) = concat xss"
  by (induction xss) auto

lemma one_key:
  "distinct ks \<Longrightarrow> k0 \<in> set ks \<Longrightarrow>
     sum_list (map (\<lambda>k. if k0 = k then {#f#} else {#}) ks) = {#f#}"
proof (induction ks)
  case Nil
  then show ?case by simp
next
  case (Cons k ks)
  show ?case
  proof (cases "k0 = k")
    case True
    then have "\<forall>k'\<in>set ks. k0 \<noteq> k'" using Cons.prems by auto
    then have "sum_list (map (\<lambda>k. if k0 = k then {#f#} else {#}) ks) = {#}"
      by (induction ks) auto
    then show ?thesis using True by simp
  next
    case False
    then show ?thesis using Cons by simp
  qed
qed

lemma partition_mset:
  "distinct ks \<Longrightarrow> \<forall>f\<in>set fs. g f \<in> set ks \<Longrightarrow>
     sum_list (map (\<lambda>k. mset (filter (\<lambda>f. g f = k) fs)) ks) = mset fs"
proof (induction fs)
  case Nil
  show ?case by (induction ks) simp_all
next
  case (Cons f fs)
  have "sum_list (map (\<lambda>k. mset (filter (\<lambda>f. g f = k) (f # fs))) ks)
      = sum_list (map (\<lambda>k. (if g f = k then {#f#} else {#}) + mset (filter (\<lambda>f. g f = k) fs)) ks)"
    by (intro arg_cong [where f = sum_list] map_cong) auto
  also have "\<dots> = sum_list (map (\<lambda>k. if g f = k then {#f#} else {#}) ks)
      + sum_list (map (\<lambda>k. mset (filter (\<lambda>f. g f = k) fs)) ks)"
    by (simp add: sum_list_addf)
  also have "\<dots> = {#f#} + mset fs"
    using Cons one_key [of ks "g f" f] by simp
  finally show ?case by simp
qed

lemma groupFilesByType_covers:
  "mset (concat (map snd (groupFilesByType fs))) = mset fs"
proof -
  have d: "distinct group_keys" by (simp add: group_keys_def empty_groups_def)
  have "map snd (groupFilesByType fs)
      = filter (\<lambda>xs. xs \<noteq> []) (map (\<lambda>k. filter (\<lambda>f. group_of f = k) fs) group_keys)"
    by (simp add: groupFilesByType_eq filter_map comp_def)
  then have "mset (concat (map snd (groupFilesByType fs)))
      = mset (concat (map (\<lambda>k. filter (\<lambda>f. group_of f = k) fs) group_keys))"
    by (simp add: concat_nonempty)
  also have "\<dots> = sum_list (map (\<lambda>k. mset (filter (\<lambda>f. group_of f = k) fs)) group_keys)"
    by (simp add: mset_concat comp_def)
  also have "\<dots> = mset fs"
    using partition_mset [OF d, of fs group_of] group_of_key by simp
  finally show ?thesis .
qed

lemma groupFilesByType_nonempty: "list_all (\<lambda>g. snd g \<noteq> []) (groupFilesByType fs)"
  by (simp add: groupFilesByType_def list_all_iff)

lemma pageLoop_pages:
  assumes cs: "1 \<le> chunkSize"
  shows "\<exists>new. pageLoop chunkSize ty tf i st = Some (fst st @ new, snd st + length new)
           \<and> concat (map chunk_files new) = drop i tf
           \<and> list_all (unit_ok chunkSize) new
           \<and> length new = pages chunkSize (length tf - i)"
proof (induction "length tf - i" arbitrary: i st rule: less_induct)
  case less
  show ?case
  proof (cases "i < length tf")
    case False
    then show ?thesis
      using cs by (subst pageLoop.simps) (simp add: pages_def)
  next
    case True
    define c where "c = fallbackChunk chunkSize ty tf i (snd st)"
    define st1 where "st1 = (fst st @ [c], snd st + 1)"
    have dec: "length tf - (i + chunkSize) < length tf - i" using True cs by simp
    from less [OF dec, of st1] obtain new
      where p: "pageLoop chunkSize ty tf (i + chunkSize) st1 = Some (fst st1 @ new, snd st1 + length new)"
        and cc: "concat (map chunk_files new) = drop (i + chunkSize) tf"
        and ok: "list_all (unit_ok chunkSize) new"
        and ln: "length new = pages chunkSize (length tf - (i + chunkSize))"
      by blast
    have step: "pageLoop chunkSize ty tf i st = Some (fst st @ (c # new), snd st + length (c # new))"
      using True p by (subst pageLoop.simps) (simp add: st1_def c_def)
    have files: "chunk_files c = take chunkSize (drop i tf)"
      by (simp add: c_def fallbackChunk_def)
    have cat: "concat (map chunk_files (c # new)) = drop i tf"
      using cc files by (simp add: add.commute [of i chunkSize] drop_drop [symmetric] del: drop_drop)
    have cok: "unit_ok chunkSize c"
      using True cs files by (simp add: unit_ok_def)
    have "pages chunkSize (length tf - i) = Suc (pages chunkSize (length tf - (i + chunkSize)))"
    proof -
      have "length tf - i + chunkSize - 1 = (length tf - (i + chunkSize) + chunkSize - 1) + chunkSize
          \<or> length tf - i < chunkSize"
        using True cs by auto
      then show ?thesis
      proof
        assume a: "length tf - i + chunkSize - 1 = (length tf - (i + chunkSize) + chunkSize - 1) + chunkSize"
        have pos: "chunkSize \<noteq> 0" using cs by simp
        have "(y + chunkSize) div chunkSize = Suc (y div chunkSize)" for y
          using div_add_self2 [OF pos, of y] by simp
        then show ?thesis unfolding pages_def a .
      next
        assume b: "length tf - i < chunkSize"
        then have z: "length tf - (i + chunkSize) = 0" by simp
        have "(length tf - i + chunkSize - 1) div chunkSize = 1"
          using b True cs by (simp add: div_nat_eqI)
        then show ?thesis unfolding pages_def z using cs by simp
      qed
    qed
    then have len: "length (c # new) = pages chunkSize (length tf - i)" using ln by simp
    show ?thesis
      using step cat cok ok len by (intro exI [of _ "c # new"]) simp
  qed
qed

lemma groupLoop_pages:
  assumes cs: "1 \<le> chunkSize"
  shows "\<exists>new. groupLoop chunkSize gs st = Some (fst st @ new, snd st + length new)
           \<and> concat (map chunk_files new) = concat (map snd gs)
           \<and> list_all (unit_ok chunkSize) new
           \<and> length new = sum_list (map (\<lambda>g. pages chunkSize (length (snd g))) gs)"
proof (induction gs arbitrary: st)
  case Nil
  show ?case by simp
next
  case (Cons g gs)
  from pageLoop_pages [OF cs, of "fst g" "snd g" 0 st] obtain new1
    where p: "pageLoop chunkSize (fst g) (snd g) 0 st = Some (fst st @ new1, snd st + length new1)"
      and c1: "concat (map chunk_files new1) = snd g"
      and o1: "list_all (unit_ok chunkSize) new1"
      and l1: "length new1 = pages chunkSize (length (snd g))"
    by auto
  from Cons [of "(fst st @ new1, snd st + length new1)"] obtain new2
    where q: "groupLoop chunkSize gs (fst st @ new1, snd st + length new1)
                = Some (fst st @ new1 @ new2, snd st + length new1 + length new2)"
      and c2: "concat (map chunk_files new2) = concat (map snd gs)"
      and o2: "list_all (unit_ok chunkSize) new2"
      and l2: "length new2 = sum_list (map (\<lambda>g. pages chunkSize (length (snd g))) gs)"
    by auto
  show ?case
    using p q c1 c2 o1 o2 l1 l2 by (intro exI [of _ "new1 @ new2"]) simp
qed

lemma fallbackChunkSize_pos:
  "1 \<le> maxChunkSize cfg \<Longrightarrow> 1 \<le> n \<Longrightarrow> 1 \<le> fallbackChunkSize cfg n"
proof -
  assume a: "1 \<le> maxChunkSize cfg" and n: "1 \<le> n"
  show ?thesis
  proof (cases "maxChunks cfg = 0")
    case True
    then show ?thesis using a by (simp add: fallbackChunkSize_def)
  next
    case False
    then have "maxChunks cfg \<le> n + maxChunks cfg - 1" using n by simp
    then have "1 \<le> (n + maxChunks cfg - 1) div maxChunks cfg"
      using False by (simp add: Suc_le_eq div_greater_zero_iff)
    then show ?thesis using a False by (simp add: fallbackChunkSize_def)
  qed
qed

lemma fallbackChunkSize_le: "fallbackChunkSize cfg n \<le> maxChunkSize cfg"
  by (simp add: fallbackChunkSize_def)

lemma createFallbackChunks_covers:
  assumes a: "1 \<le> maxChunkSize cfg"
  shows "\<exists>d. createFallbackChunks cfg fs = Some d
           \<and> mset (all_items d) = mset fs
           \<and> list_all (unit_ok (fallbackChunkSize cfg (length fs))) (chunks d)
           \<and> chunkCount d = length (chunks d)
           \<and> totalFiles d = length fs
           \<and> length (chunks d)
               = sum_list (map (\<lambda>g. pages (fallbackChunkSize cfg (length fs)) (length (snd g)))
                            (groupFilesByType fs))"
proof (cases "fs = []")
  case True
  then have "groupFilesByType fs = []"
    by (simp add: groupFilesByType_def empty_groups_def)
  then show ?thesis
    using True by (simp add: createFallbackChunks_def fallbackData_def all_items_def)
next
  case False
  then have "1 \<le> length fs" by (cases fs) simp_all
  from fallbackChunkSize_pos [OF a this]
  have cs: "1 \<le> fallbackChunkSize cfg (length fs)" .
  from groupLoop_pages [OF cs, of "groupFilesByType fs" "([], 1)"] obtain new
    where g: "groupLoop (fallbackChunkSize cfg (length fs)) (groupFilesByType fs) ([], 1)
                = Some (new, 1 + length new)"
      and c: "concat (map chunk_files new) = concat (map snd (groupFilesByType fs))"
      and o: "list_all (unit_ok (fallbackChunkSize cfg (length fs))) new"
      and l: "length new = sum_list (map (\<lambda>g. pages (fallbackChunkSize cfg (length fs))
                                                (length (snd g))) (groupFilesByType fs))"
    by auto
  show ?thesis
    using g c o l groupFilesByType_covers [of fs]
    by (simp add: createFallbackChunks_def fallbackData_def all_items_def)
qed

lemma validateStep_valid:
  "list_all (valid_unit allFiles) acc \<Longrightarrow> list_all (valid_unit allFiles) (validateStep allFiles acc ic)"
  by (auto simp: validateStep_def valid_unit_def Let_def split: option.splits)

lemma validate_foldl_valid:
  "list_all (valid_unit allFiles) acc
   \<Longrightarrow> list_all (valid_unit allFiles) (foldl (validateStep allFiles) acc xs)"
  by (induction xs arbitrary: acc) (simp_all add: validateStep_valid)

lemma validateStep_files:
  "map chunk_files (validateStep allFiles acc ic)
     = map chunk_files acc @ kept_files allFiles [snd ic]"
  by (simp add: validateStep_def kept_files_def map_filter_simps Let_def split: option.splits)

lemma kept_files_Cons: "kept_files allFiles (c # cs) = kept_files allFiles [c] @ kept_files allFiles cs"
  by (simp add: kept_files_def map_filter_simps split: option.splits)

lemma validate_foldl_files:
  "map chunk_files (foldl (validateStep allFiles) acc xs)
     = map chunk_files acc @ kept_files allFiles (map snd xs)"
proof (induction xs arbitrary: acc)
  case Nil
  show ?case by (simp add: kept_files_def map_filter_simps)
next
  case (Cons ic xs)
  have "map chunk_files (foldl (validateStep allFiles) (validateStep allFiles acc ic) xs)
      = (map chunk_files acc @ kept_files allFiles [snd ic]) @ kept_files allFiles (map snd xs)"
    unfolding Cons validateStep_files ..
  then show ?case
    using kept_files_Cons [of allFiles "snd ic" "map snd xs"] by simp
qed

lemma validateAndCleanChunks_files:
  "validateAndCleanChunks (Some rcs) allFiles = Some cs
   \<Longrightarrow> map chunk_files cs = kept_files allFiles rcs \<and> list_all (valid_unit allFiles) cs"
  using validate_foldl_files [of allFiles "[]" "zip [0..<length rcs] rcs"]
    validate_foldl_valid [of allFiles "[]" "zip [0..<length rcs] rcs"]
  by (auto simp: validateAndCleanChunks_def)

lemma createIntelligentChunks_proposal:
  "createIntelligentChunks llm repoName fs
     = (case proposal_of llm repoName fs of
          None \<Rightarrow> None
        | Some rcs \<Rightarrow> createIntelligentChunks llm repoName fs)"
  by (simp add: createIntelligentChunks_def proposal_of_def validateAndCleanChunks_def
      split: sum.splits option.splits)

lemma createIntelligentChunks_None:
  "(createIntelligentChunks llm repoName fs = None) = (proposal_of llm repoName fs = None)"
  by (simp add: createIntelligentChunks_def proposal_of_def validateAndCleanChunks_def
      split: sum.splits option.splits)

lemma createIntelligentChunks_files:
  assumes "createIntelligentChunks llm repoName fs = Some d"
  shows "\<exists>rcs. proposal_of llm repoName fs = Some rcs
           \<and> map chunk_files (chunks d) = kept_files fs rcs
           \<and> list_all (valid_unit fs) (chunks d)
           \<and> chunkCount d = length (chunks d) \<and> totalFiles d = length fs"
proof -
  from assms obtain s p rcs cs
    where s: "formatFileStructureForChunking fs = Inr s"
      and p: "llm repoName (length fs) s = Some p"
      and r: "proposed_chunks p = Some rcs"
      and v: "validateAndCleanChunks (Some rcs) fs = Some cs"
      and d: "chunks d = cs" "chunkCount d = length cs" "totalFiles d = length fs"
    by (auto simp: createIntelligentChunks_def validateAndCleanChunks_def
        split: sum.splits option.splits)
  have "proposal_of llm repoName fs = Some rcs"
    using s p r by (simp add: proposal_of_def)
  then show ?thesis
    using validateAndCleanChunks_files [OF v] d by simp
qed

text \<open>
  C1, amended. With \<^verbatim>\<open>maxChunkSize \<ge> 1\<close>, \<^verbatim>\<open>chunkRepository\<close> returns a decomposition, whose
  \<^verbatim>\<open>totalFiles\<close> is the number of files of the listing and whose \<^verbatim>\<open>chunkCount\<close> is its number of
  units. When the listing fits one chunk, the one unit holds the files of the listing. When
  the chunking model gives no list of chunks (the listing cannot be formatted, the call
  throws, the reply holds no JSON, or its chunks are no array), the rule-based fallback
  runs and the files of all units together are the files of the listing, each as often as
  the listing has it: none is dropped and none is in two units. When the model gives a list
  of chunks, the units are, in the order of the proposal, its chunks that have a files
  array, each cut down to the files of the listing, without those left empty: no unit is
  empty and every file of a unit is a file of the listing, and nothing else is guaranteed.
\<close>

theorem chunkRepository_coverage_by_path:
  assumes "1 \<le> maxChunkSize cfg"
  shows "\<exists>d. chunkRepository cfg llm repoName repoTree = Some d
     \<and> totalFiles d = length (extractFilesFromTree repoTree)
     \<and> chunkCount d = length (chunks d)
     \<and> (if length (extractFilesFromTree repoTree) \<le> maxChunkSize cfg
            \<or> createIntelligentChunks llm repoName (extractFilesFromTree repoTree) = None
         then mset (all_items d) = mset (extractFilesFromTree repoTree)
         else list_all (valid_unit (extractFilesFromTree repoTree)) (chunks d))
     \<and> (if length (extractFilesFromTree repoTree) \<le> maxChunkSize cfg
         then map chunk_files (chunks d) = [extractFilesFromTree repoTree]
         else (case proposal_of llm repoName (extractFilesFromTree repoTree) of
                 None \<Rightarrow>
                   createIntelligentChunks llm repoName (extractFilesFromTree repoTree) = None
                   \<and> createFallbackChunks cfg (extractFilesFromTree repoTree) = Some d
               | Some rcs \<Rightarrow>
                   createIntelligentChunks llm repoName (extractFilesFromTree repoTree) = Some d
                   \<and> map chunk_files (chunks d)
                       = kept_files (extractFilesFromTree repoTree) rcs))"
proof -
  define fs where "fs = extractFilesFromTree repoTree"
  show ?thesis
  proof (cases "length fs \<le> maxChunkSize cfg")
    case True
    then show ?thesis
      by (simp add: chunkRepository_def fs_def [symmetric] createSingleChunk_def all_items_def)
  next
    case False
    show ?thesis
    proof (cases "createIntelligentChunks llm repoName fs")
      case None
      then have p: "proposal_of llm repoName fs = None"
        by (simp add: createIntelligentChunks_None)
      from createFallbackChunks_covers [OF assms, of fs] obtain d
        where "createFallbackChunks cfg fs = Some d" "mset (all_items d) = mset fs"
          "chunkCount d = length (chunks d)" "totalFiles d = length fs" by blast
      then show ?thesis
        using False None p by (simp add: chunkRepository_def fs_def [symmetric])
    next
      case (Some d)
      from createIntelligentChunks_files [OF Some] obtain rcs
        where "proposal_of llm repoName fs = Some rcs"
          "map chunk_files (chunks d) = kept_files fs rcs"
          "list_all (valid_unit fs) (chunks d)"
          "chunkCount d = length (chunks d)" "totalFiles d = length fs" by blast
      then show ?thesis
        using False Some by (simp add: chunkRepository_def fs_def [symmetric])
    qed
  qed
qed

lemma three_files_items: "extractFilesFromTree three_files = [''a.js'', ''b.js'', ''c.js'']"
  by code_simp

lemma inherited_dir_items:
  "extractFilesFromTree inherited_dir_files = [''constructor/a.js'', ''b.js'', ''c.js'']"
  by code_simp

text \<open>
  C1, as stated, fails on the model's path. For the listing \<^verbatim>\<open>a.js, b.js, c.js\<close> and at most
  two files per chunk: a proposal of the one chunk \<^verbatim>\<open>[a.js]\<close> is returned as it is, so
  \<^verbatim>\<open>b.js\<close> and \<^verbatim>\<open>c.js\<close> are dropped; a proposal of the chunks \<^verbatim>\<open>[a.js, b.js, c.js]\<close> and
  \<^verbatim>\<open>[a.js]\<close> is returned as it is, so \<^verbatim>\<open>a.js\<close> is in two units; and a proposal with no file of
  the listing gives a decomposition without any unit.
\<close>

theorem chunkRepository_coverage_counterexample:
  "extractFilesFromTree three_files = [''a.js'', ''b.js'', ''c.js'']
   \<and> map_option all_items
        (chunkRepository small_config (model_proposes [[''a.js'']]) ''repo'' three_files)
       = Some [''a.js'']
   \<and> map_option (map chunk_files \<circ> chunks)
        (chunkRepository small_config (model_proposes [[''a.js'', ''b.js'', ''c.js''], [''a.js'']])
           ''repo'' three_files)
       = Some [[''a.js'', ''b.js'', ''c.js''], [''a.js'']]
   \<and> map_option all_items
        (chunkRepository small_config (model_proposes [[''README.md'']]) ''repo'' three_files)
       = Some []"
proof -
  have f: "\<exists>s. formatFileStructureForChunking [''a.js'', ''b.js'', ''c.js''] = Inr s"
    by (simp add: formatFileStructureForChunking_def dir_of_def inherited_keys_def
        inherited_functions_def Let_def)
  then obtain s where s: "formatFileStructureForChunking [''a.js'', ''b.js'', ''c.js''] = Inr s" ..
  show ?thesis
    by (simp add: three_files_items chunkRepository_def small_config_def
        createIntelligentChunks_def s
        model_proposes_def validateAndCleanChunks_def validateStep_def proposed_def all_items_def
        or_else_def or_empty_def show_nat.simps digit_char_def upt_rec)
qed

text \<open>
  The three paths under the policy of at most two files per chunk. The model fails on the
  listing \<^verbatim>\<open>a.js, b.js, c.js\<close>: the fallback covers it. The model proposes the chunks
  \<^verbatim>\<open>[a.js, x.js]\<close>, \<^verbatim>\<open>[README.md]\<close> and \<^verbatim>\<open>[b.js]\<close>: the units are \<^verbatim>\<open>[a.js]\<close> and \<^verbatim>\<open>[b.js]\<close>. The
  listing has a file under the directory \<^verbatim>\<open>constructor\<close>: it cannot be formatted, the model
  is not asked, and the fallback covers it. Under the default policy the listing of three
  files is one unit.
\<close>

theorem chunkRepository_coverage_by_path_witness:
  "1 \<le> maxChunkSize small_config
   \<and> (\<exists>d. chunkRepository small_config model_fails ''repo'' three_files = Some d
          \<and> mset (all_items d) = mset [''a.js'', ''b.js'', ''c.js''])
   \<and> (\<exists>d. chunkRepository small_config
             (model_proposes [[''a.js'', ''x.js''], [''README.md''], [''b.js'']]) ''repo'' three_files
             = Some d
          \<and> map chunk_files (chunks d) = [[''a.js''], [''b.js'']]
          \<and> chunkCount d = 2 \<and> totalFiles d = 3)
   \<and> (\<exists>d. chunkRepository small_config (model_proposes [[''b.js'']]) ''repo'' inherited_dir_files
             = Some d
          \<and> mset (all_items d) = mset [''constructor/a.js'', ''b.js'', ''c.js''])
   \<and> (\<exists>d. chunkRepository default_chunking model_fails ''repo'' three_files = Some d
          \<and> map chunk_files (chunks d) = [[''a.js'', ''b.js'', ''c.js'']])"
proof -
  have h: "1 \<le> maxChunkSize small_config" "1 \<le> maxChunkSize default_chunking"
    by (simp_all add: small_config_def default_chunking_def)
  have m: "maxChunkSize small_config = 2" "maxChunkSize default_chunking = 200"
    by (simp_all add: small_config_def default_chunking_def)
  have f: "\<exists>s. formatFileStructureForChunking [''a.js'', ''b.js'', ''c.js''] = Inr s"
    by (simp add: formatFileStructureForChunking_def dir_of_def inherited_keys_def
        inherited_functions_def Let_def)
  have n: "createIntelligentChunks model_fails ''repo'' [''a.js'', ''b.js'', ''c.js''] = None"
    by (simp add: createIntelligentChunks_def model_fails_def split: sum.splits)
  have p: "proposal_of (model_proposes [[''a.js'', ''x.js''], [''README.md''], [''b.js'']]) ''repo''
             [''a.js'', ''b.js'', ''c.js'']
           = Some (map proposed [[''a.js'', ''x.js''], [''README.md''], [''b.js'']])"
    using f by (auto simp: proposal_of_def model_proposes_def)
  have k: "kept_files [''a.js'', ''b.js'', ''c.js'']
             (map proposed [[''a.js'', ''x.js''], [''README.md''], [''b.js'']])
           = [[''a.js''], [''b.js'']]"
    by (simp add: kept_files_def proposed_def map_filter_simps)
  have t: "formatFileStructureForChunking [''constructor/a.js'', ''b.js'', ''c.js''] = Inl TypeError"
    by (simp add: formatFileStructureForChunking_def dir_of_def inherited_keys_def
        inherited_functions_def Let_def)
  have q: "createIntelligentChunks (model_proposes [[''b.js'']]) ''repo''
             [''constructor/a.js'', ''b.js'', ''c.js''] = None"
    by (simp add: createIntelligentChunks_def t)
  from chunkRepository_coverage_by_path [OF h(1), of model_fails "''repo''" three_files]
  have 1: "\<exists>d. chunkRepository small_config model_fails ''repo'' three_files = Some d
          \<and> mset (all_items d) = mset [''a.js'', ''b.js'', ''c.js'']"
    using n by (auto simp: three_files_items)
  from chunkRepository_coverage_by_path [OF h(1),
      of "model_proposes [[''a.js'', ''x.js''], [''README.md''], [''b.js'']]" "''repo''" three_files]
  have 2: "\<exists>d. chunkRepository small_config
             (model_proposes [[''a.js'', ''x.js''], [''README.md''], [''b.js'']]) ''repo'' three_files
             = Some d
          \<and> map chunk_files (chunks d) = [[''a.js''], [''b.js'']]
          \<and> chunkCount d = 2 \<and> totalFiles d = 3"
    unfolding three_files_items p m using k
    by (auto dest: arg_cong [where f = length])
  from chunkRepository_coverage_by_path [OF h(1), of "model_proposes [[''b.js'']]" "''repo''"
      inherited_dir_files]
  have 3: "\<exists>d. chunkRepository small_config (model_proposes [[''b.js'']]) ''repo''
                 inherited_dir_files = Some d
          \<and> mset (all_items d) = mset [''constructor/a.js'', ''b.js'', ''c.js'']"
    using q by (auto simp: inherited_dir_items)
  from chunkRepository_coverage_by_path [OF h(2), of model_fails "''repo''" three_files]
  have 4: "\<exists>d. chunkRepository default_chunking model_fails ''repo'' three_files = Some d
          \<and> map chunk_files (chunks d) = [[''a.js'', ''b.js'', ''c.js'']]"
    unfolding three_files_items m by auto
  show ?thesis using h(1) 1 2 3 4 by blast
qed

lemma group_frontend: "group_of (frontend_file k) = ''Frontend''"
  by (simp add: group_of_def frontend_file_def toLowerCase_def lower_char_def Let_def)

lemma group_license: "group_of ''LICENSE'' = ''Other''"
  by (simp add: group_of_def file_ext_def toLowerCase_def lower_char_def Let_def)

lemma filter_frontend:
  "filter (\<lambda>f. group_of f = k) (map frontend_file ns)
     = (if k = ''Frontend'' then map frontend_file ns else [])"
  by (induction ns) (auto simp: group_frontend)

lemma groups_800:
  "groupFilesByType files_800
     = [(''Frontend'', map frontend_file [0..<799]), (''Other'', [''LICENSE''])]"
  by (simp add: groupFilesByType_eq group_keys_def empty_groups_def files_800_def filter_frontend
      group_license)

text \<open>
  C8. For the listing of 800 files (799 of the group \<^verbatim>\<open>Frontend\<close>, one of the group
  \<^verbatim>\<open>Other\<close>) under the policy of 200 files per chunk and 10 chunks, the fallback cuts pages
  of \<open>min 200 (ceil (800 / 10)) = 80\<close> files group by group: ten pages for the first group
  and one for the second, eleven units, one more than \<^verbatim>\<open>maxChunks\<close>. All 800 files are
  covered and no unit has more than 80 files.
\<close>

theorem fallback_800_files_11_units:
  "length files_800 = 800
   \<and> fallbackChunkSize default_chunking (length files_800) = 80
   \<and> (\<exists>d. createFallbackChunks default_chunking files_800 = Some d
          \<and> chunkCount d = 11
          \<and> length (chunks d) = 11
          \<and> mset (all_items d) = mset files_800
          \<and> list_all (unit_ok 80) (chunks d))"
proof -
  have n: "length files_800 = 800" by (simp add: files_800_def)
  have c: "fallbackChunkSize default_chunking 800 = 80"
    by (simp add: fallbackChunkSize_def default_chunking_def)
  have h: "1 \<le> maxChunkSize default_chunking" by (simp add: default_chunking_def)
  have p: "pages 80 799 = 10" "pages 80 1 = 1" by (simp_all add: pages_def)
  from createFallbackChunks_covers [OF h, of files_800]
  show ?thesis unfolding n c groups_800 using p by auto
qed

section \<open>The summary block\<close>

text \<open>
  C2, as stated, fails. With two of three units successful and a synthesis model that
  answers with the summary block 8/7/1, the aggregator returns that block unchanged, and
  the orchestrator passes it on as \<^verbatim>\<open>chunkAnalysisSummary\<close>: on the model's path the summary
  block is the model's, not the batch outcome's counts 3/2/1.
\<close>

theorem summary_from_model_counterexample:
  "length (results two_of_three) + length (errors two_of_three) = 3
   \<and> length (successful (results two_of_three)) = 2
   \<and> length (errors two_of_three) = 1
   \<and> chunk_analysis_summary (agg_data (aggregateResults model_reply two_of_three))
       = Some model_summary
   \<and> total_chunks model_summary = 8
   \<and> successful_chunks model_summary = 7
   \<and> failed_chunks model_summary = 1
   \<and> chunk_analysis_summary (agg_data (aggregateResults model_reply two_of_three))
       \<noteq> Some (counted_summary two_of_three)
   \<and> chunkAnalysisSummary
        (combineChunkedResults (agg_data (aggregateResults model_reply two_of_three)) [])
       = Some (Some model_summary)"
  by (simp add: two_of_three_def aggregateResults_def createIntelligentAggregation_def
      model_reply_def model_summary_def combineChunkedResults_def no_analysis_def
      failed_entry_def counted_summary_def)

text \<open>
  C2, amended. The summary block of the record the aggregator returns is, on every path:
  the degenerate block (total = failed = results + errors, successful = 0) when no result
  is successful; the summary block of the synthesis model's reply, whatever it says, when
  the model's reply parses (the whole record is the model's reply); the batch outcome's
  counts (total = results + errors, successful = the successful results, failed = errors)
  when the model fails and the rule-based merge runs through; and the degenerate block
  again when the rule-based merge throws. In the metadata, \<^verbatim>\<open>totalChunks\<close> is results + errors
  on every path, and \<^verbatim>\<open>successfulChunks\<close> is the number of successful results except with the
  degenerate record, where it is 0. The orchestrator copies the summary block of the
  aggregated record unchanged.
\<close>

theorem aggregate_summary_by_path:
  "chunk_analysis_summary (agg_data (aggregateResults synth chunkResults))
     = (if successful (results chunkResults) = [] then Some (degenerate_summary chunkResults)
        else (case synth (successful (results chunkResults)) chunkResults of
                Some aggregatedData \<Rightarrow> chunk_analysis_summary aggregatedData
              | None \<Rightarrow>
                  if rule_based_throws (successful (results chunkResults))
                  then Some (degenerate_summary chunkResults)
                  else Some (counted_summary chunkResults)))
   \<and> agg_data (aggregateResults synth chunkResults)
     = (if successful (results chunkResults) = []
        then agg_data (createFallbackAggregation chunkResults)
        else (case synth (successful (results chunkResults)) chunkResults of
                Some aggregatedData \<Rightarrow> aggregatedData
              | None \<Rightarrow> agg_data (aggregateResults (\<lambda>rs co. None) chunkResults)))
   \<and> successfulChunks (aggregateResults synth chunkResults)
     = (if successful (results chunkResults) = [] then 0
        else (case synth (successful (results chunkResults)) chunkResults of
                Some aggregatedData \<Rightarrow> length (successful (results chunkResults))
              | None \<Rightarrow>
                  if rule_based_throws (successful (results chunkResults)) then 0
                  else length (successful (results chunkResults))))
   \<and> agg_totalChunks (aggregateResults synth chunkResults)
     = length (results chunkResults) + length (errors chunkResults)
   \<and> agg_success (aggregateResults synth chunkResults)
   \<and> chunkAnalysisSummary
        (combineChunkedResults (agg_data (aggregateResults synth chunkResults)) m)
     = Some (chunk_analysis_summary (agg_data (aggregateResults synth chunkResults)))"
  by (cases "determineArchitecturePattern (successful (results chunkResults))";
      cases "mergeComponents (successful (results chunkResults))")
     (simp_all add: aggregateResults_def createIntelligentAggregation_def
      createRuleBasedAggregation_def createFallbackAggregation_def counted_summary_def
      degenerate_summary_def rule_based_throws_def combineChunkedResults_def Let_def
      split: option.splits)

text \<open>
  The three paths with at least one successful result: two of three units successful and
  the rule-based merge running through; a single successful unit labelled \<^verbatim>\<open>__proto__\<close>, for
  which the reduction over no entry throws; two successful units with the same component,
  the first without \<^verbatim>\<open>technologies\<close>, for which the component merge throws.
\<close>

theorem aggregate_summary_by_path_witness:
  "chunk_analysis_summary (agg_data (aggregateResults (\<lambda>rs co. None) two_of_three))
       = Some \<lparr> total_chunks = 3, successful_chunks = 2, failed_chunks = 1,
                chunk_types = [(''backend'', Count 2)],
                processing_time = ''2 minutes 5 seconds'' \<rparr>
   \<and> successfulChunks (aggregateResults (\<lambda>rs co. None) two_of_three) = 2
   \<and> chunk_analysis_summary (agg_data (aggregateResults (\<lambda>rs co. None) proto_outcome))
       = Some \<lparr> total_chunks = 1, successful_chunks = 0, failed_chunks = 1, chunk_types = [],
                processing_time = ''0 minutes 0 seconds'' \<rparr>
   \<and> successfulChunks (aggregateResults (\<lambda>rs co. None) proto_outcome) = 0
   \<and> chunk_analysis_summary (agg_data (aggregateResults (\<lambda>rs co. None) bare_outcome))
       = Some \<lparr> total_chunks = 2, successful_chunks = 0, failed_chunks = 2, chunk_types = [],
                processing_time = ''0 minutes 0 seconds'' \<rparr>
   \<and> successfulChunks (aggregateResults (\<lambda>rs co. None) bare_outcome) = 0"
proof -
  have t: "format_processing_time 125000 = ''2 minutes 5 seconds''"
      "format_processing_time 0 = ''0 minutes 0 seconds''"
    by (simp_all add: format_processing_time_def show_nat.simps digit_char_def)
  have s1: "successful (results two_of_three) \<noteq> []" by (simp add: two_of_three_def)
  have l1: "length (successful (results two_of_three)) = 2" by (simp add: two_of_three_def)
  have r1: "\<not> rule_based_throws (successful (results two_of_three))"
    by (simp add: rule_based_throws_def two_of_three_def determineArchitecturePattern_def
        mergeComponents_def unit_result_def no_analysis_def or_empty_def filter_Boolean_def
        truthy_def)
  have c1: "counted_summary two_of_three
      = \<lparr> total_chunks = 3, successful_chunks = 2, failed_chunks = 1,
          chunk_types = [(''backend'', Count 2)],
          processing_time = ''2 minutes 5 seconds'' \<rparr>"
    using t by (simp add: counted_summary_def two_of_three_def analyzeChunkTypes_def
        unit_result_def or_else_def inherited_functions_def)
  have s2: "successful (results proto_outcome) \<noteq> []" by (simp add: proto_outcome_def)
  have r2: "rule_based_throws (successful (results proto_outcome))"
    by (simp add: rule_based_throws_def proto_outcome_def determineArchitecturePattern_def
        labelled_def unit_result_def no_analysis_def filter_Boolean_def truthy_def
        Object_entries_def)
  have d2: "degenerate_summary proto_outcome
      = \<lparr> total_chunks = 1, successful_chunks = 0, failed_chunks = 1, chunk_types = [],
          processing_time = ''0 minutes 0 seconds'' \<rparr>"
    using t by (simp add: degenerate_summary_def proto_outcome_def)
  have s3: "successful (results bare_outcome) \<noteq> []" by (simp add: bare_outcome_def)
  have r3: "rule_based_throws (successful (results bare_outcome))"
    by (simp add: rule_based_throws_def bare_outcome_def mergeComponents_def mergeStep_def
        component_key_def tmpl_def bare_component_def unit_result_def no_analysis_def
        or_empty_def)
  have d3: "degenerate_summary bare_outcome
      = \<lparr> total_chunks = 2, successful_chunks = 0, failed_chunks = 2, chunk_types = [],
          processing_time = ''0 minutes 0 seconds'' \<rparr>"
    using t by (simp add: degenerate_summary_def bare_outcome_def)
  show ?thesis
    using aggregate_summary_by_path [of "\<lambda>rs co. None" two_of_three "[]"]
      aggregate_summary_by_path [of "\<lambda>rs co. None" proto_outcome "[]"]
      aggregate_summary_by_path [of "\<lambda>rs co. None" bare_outcome "[]"]
      s1 l1 r1 c1 s2 r2 d2 s3 r3 d3
    by simp
qed

section \<open>The coordinator\<close>

lemma retryLoop_defined:
  "lastError \<noteq> None \<or> attempt \<le> retryAttempts cfg
   \<Longrightarrow> fst (retryLoop cfg an c idx attempt lastError) \<noteq> Rejected None"
proof (induction cfg an c idx attempt lastError rule: retryLoop.induct)
  case (1 cfg an c idx attempt lastError)
  show ?case
  proof (cases "attempt \<le> retryAttempts cfg")
    case False
    then show ?thesis using "1.prems" by (subst retryLoop.simps) auto
  next
    case True
    show ?thesis
    proof (cases "processChunk cfg an c idx attempt")
      case (Returned r)
      show ?thesis
      proof (cases "success r")
        case True
        then show ?thesis using \<open>attempt \<le> retryAttempts cfg\<close> Returned
          by (subst retryLoop.simps) simp
      next
        case False
        then show ?thesis using \<open>attempt \<le> retryAttempts cfg\<close> Returned "1.IH"(1) [OF True Returned False]
          by (subst retryLoop.simps) simp
      qed
    next
      case (Thrown msg)
      then show ?thesis using True "1.IH"(2) [OF True Thrown]
        by (subst retryLoop.simps) simp
    qed
  qed
qed

lemma retryLoop_message:
  "(\<forall>m. lastError = Some m \<longrightarrow> m \<noteq> [])
   \<Longrightarrow> fst (retryLoop cfg an c idx attempt lastError) = Rejected (Some msg) \<Longrightarrow> msg \<noteq> []"
proof (induction cfg an c idx attempt lastError rule: retryLoop.induct)
  case (1 cfg an c idx attempt lastError)
  show ?case
  proof (cases "attempt \<le> retryAttempts cfg")
    case False
    then show ?thesis using "1.prems" by (subst (asm) retryLoop.simps) auto
  next
    case True
    show ?thesis
    proof (cases "processChunk cfg an c idx attempt")
      case (Returned r)
      show ?thesis
      proof (cases "success r")
        case True
        then show ?thesis using \<open>attempt \<le> retryAttempts cfg\<close> Returned "1.prems"(2)
          by (subst (asm) retryLoop.simps) simp
      next
        case False
        have ne: "\<forall>m. Some (or_else (result_error r) ''Chunk processing failed'') = Some m \<longrightarrow> m \<noteq> []"
          by (auto simp: or_else_def split: option.splits)
        have "fst (retryLoop cfg an c idx (attempt + 1)
                 (Some (or_else (result_error r) ''Chunk processing failed''))) = Rejected (Some msg)"
          using "1.prems"(2) \<open>attempt \<le> retryAttempts cfg\<close> Returned False
          by (subst (asm) retryLoop.simps) simp
        then show ?thesis using "1.IH"(1) [OF True Returned False ne] by simp
      qed
    next
      case (Thrown m')
      have ne: "\<forall>m. Some m' = Some m \<longrightarrow> m \<noteq> []"
        using Thrown by (auto simp: processChunk_def split: unit_behaviour.splits)
      have "fst (retryLoop cfg an c idx (attempt + 1) (Some m')) = Rejected (Some msg)"
        using "1.prems"(2) True Thrown by (subst (asm) retryLoop.simps) simp
      then show ?thesis using "1.IH"(2) [OF True Thrown ne] by simp
    qed
  qed
qed

lemma retryLoop_success:
  "fst (retryLoop cfg an c idx attempt lastError) = Fulfilled r \<Longrightarrow> success r"
proof (induction cfg an c idx attempt lastError rule: retryLoop.induct)
  case (1 cfg an c idx attempt lastError)
  show ?case
  proof (cases "attempt \<le> retryAttempts cfg")
    case False
    then show ?thesis using "1.prems" by (subst (asm) retryLoop.simps) auto
  next
    case True
    show ?thesis
    proof (cases "processChunk cfg an c idx attempt")
      case (Returned r')
      show ?thesis
      proof (cases "success r'")
        case True
        then show ?thesis using \<open>attempt \<le> retryAttempts cfg\<close> Returned "1.prems"
          by (subst (asm) retryLoop.simps) simp
      next
        case False
        have "fst (retryLoop cfg an c idx (attempt + 1)
                 (Some (or_else (result_error r') ''Chunk processing failed''))) = Fulfilled r"
          using "1.prems" \<open>attempt \<le> retryAttempts cfg\<close> Returned False
          by (subst (asm) retryLoop.simps) simp
        then show ?thesis using "1.IH"(1) [OF True Returned False] by simp
      qed
    next
      case (Thrown m')
      have "fst (retryLoop cfg an c idx (attempt + 1) (Some m')) = Fulfilled r"
        using "1.prems" True Thrown by (subst (asm) retryLoop.simps) simp
      then show ?thesis using "1.IH"(2) [OF True Thrown] by simp
    qed
  qed
qed



lemma settleLoop_returns:
  "\<forall>x\<in>set xs. snd (snd x) \<noteq> Rejected None \<Longrightarrow> \<exists>st'. settleLoop i xs st = Inr st'"
proof (induction xs arbitrary: st)
  case Nil
  show ?case by simp
next
  case (Cons x xs)
  then have "snd (snd x) \<noteq> Rejected None" by simp
  then have "\<exists>st1. settleStep i st x = Inr st1"
    by (cases "snd (snd x)") (auto simp: settleStep_def split: option.splits)
  then obtain st1 where s: "settleStep i st x = Inr st1" by blast
  from Cons have "\<forall>y\<in>set xs. snd (snd y) \<noteq> Rejected None" by simp
  from Cons.IH [OF this, of st1] s show ?case by simp
qed

lemma settleLoop_log: "settleLoop i xs st = Inr st' \<Longrightarrow> attemptLog st' = attemptLog st"
proof (induction xs arbitrary: st)
  case Nil
  then show ?case by simp
next
  case (Cons x xs)
  then obtain st1 where s: "settleStep i st x = Inr st1" and r: "settleLoop i xs st1 = Inr st'"
    by (auto split: sum.splits)
  from s have "attemptLog st1 = attemptLog st"
    by (auto simp: settleStep_def split: settled.splits option.splits)
  then show ?case using Cons.IH [OF r] by simp
qed

lemma settleLoop_results:
  "settleLoop i xs st = Inr st' \<Longrightarrow>
     length (st_results st')
       = length (st_results st) + length (filter (\<lambda>x. fulfilled (snd (snd x))) xs)"
proof (induction xs arbitrary: st)
  case Nil
  then show ?case by simp
next
  case (Cons x xs)
  then obtain st1 where s: "settleStep i st x = Inr st1" and r: "settleLoop i xs st1 = Inr st'"
    by (auto split: sum.splits)
  from s have "length (st_results st1)
      = length (st_results st) + (if fulfilled (snd (snd x)) then 1 else 0)"
    by (auto simp: settleStep_def split: settled.splits option.splits)
  then show ?case using Cons.IH [OF r] by simp
qed

lemma settleLoop_errors:
  "settleLoop i xs st = Inr st' \<Longrightarrow>
     length (st_errors st')
       = length (st_errors st) + length (filter (\<lambda>x. \<not> fulfilled (snd (snd x))) xs)"
proof (induction xs arbitrary: st)
  case Nil
  then show ?case by simp
next
  case (Cons x xs)
  then obtain st1 where s: "settleStep i st x = Inr st1" and r: "settleLoop i xs st1 = Inr st'"
    by (auto split: sum.splits)
  from s have "length (st_errors st1)
      = length (st_errors st) + (if fulfilled (snd (snd x)) then 0 else 1)"
    by (auto simp: settleStep_def split: settled.splits option.splits)
  then show ?case using Cons.IH [OF r] by simp
qed

lemma settleLoop_keeps: "settleLoop i xs st = Inr st' \<Longrightarrow> set (st_errors st) \<subseteq> set (st_errors st')"
proof (induction xs arbitrary: st)
  case Nil
  then show ?case by simp
next
  case (Cons x xs)
  then obtain st1 where s: "settleStep i st x = Inr st1" and r: "settleLoop i xs st1 = Inr st'"
    by (auto split: sum.splits)
  from s have "set (st_errors st) \<subseteq> set (st_errors st1)"
    by (auto simp: settleStep_def split: settled.splits option.splits)
  then show ?case using Cons.IH [OF r] by blast
qed

lemma settleLoop_entry:
  "settleLoop i xs st = Inr st' \<Longrightarrow> x \<in> set xs \<Longrightarrow> snd (snd x) = Rejected (Some msg)
   \<Longrightarrow> msg \<noteq> []
   \<Longrightarrow> error_entry (i + fst x) (chunk_id (fst (snd x))) msg \<in> set (st_errors st')"
proof (induction xs arbitrary: st)
  case Nil
  then show ?case by simp
next
  case (Cons y xs)
  then obtain st1 where s: "settleStep i st y = Inr st1" and r: "settleLoop i xs st1 = Inr st'"
    by (auto split: sum.splits)
  show ?case
  proof (cases "x = y")
    case True
    then have "error_entry (i + fst x) (chunk_id (fst (snd x))) msg \<in> set (st_errors st1)"
      using s Cons.prems(3,4) by (auto simp: settleStep_def error_entry_def)
    then show ?thesis using settleLoop_keeps [OF r] by blast
  next
    case False
    then have "x \<in> set xs" using Cons.prems(2) by simp
    from Cons.IH [OF r this Cons.prems(3,4)] show ?thesis .
  qed
qed

lemma settleLoop_success:
  "settleLoop i xs st = Inr st' \<Longrightarrow> list_all success (st_results st)
   \<Longrightarrow> \<forall>x\<in>set xs. \<forall>r. snd (snd x) = Fulfilled r \<longrightarrow> success r
   \<Longrightarrow> list_all success (st_results st')"
proof (induction xs arbitrary: st)
  case Nil
  then show ?case by simp
next
  case (Cons x xs)
  then obtain st1 where s: "settleStep i st x = Inr st1" and r: "settleLoop i xs st1 = Inr st'"
    by (auto split: sum.splits)
  from s Cons.prems(2,3) have "list_all success (st_results st1)"
    by (auto simp: settleStep_def split: settled.splits option.splits)
  moreover have "\<forall>y\<in>set xs. \<forall>r. snd (snd y) = Fulfilled r \<longrightarrow> success r"
    using Cons.prems(3) by simp
  ultimately show ?case using Cons.IH [OF r] by blast
qed

lemma zip_map_same: "zip xs (map g xs) = map (\<lambda>x. (x, g x)) xs"
  by (induction xs) simp_all

lemma batch_items:
  "zip [0..<min (length cs - i) m] (take m (drop i cs))
     = map (\<lambda>k. (k, cs ! (i + k))) [0..<min (length cs - i) m]"
  by (rule nth_equalityI) (auto simp: nth_drop)

lemma processBatch_unfold:
  "processBatch cfg an cs i st =
     (case settleLoop i
             (map (\<lambda>k. (k, cs ! (i + k), fst (unit_settled cfg an cs (i + k))))
                [0..<min (length cs - i) (maxConcurrentChunks cfg)])
             (st\<lparr>attemptLog := attemptLog st @
                   map (\<lambda>k. (i + k, snd (unit_settled cfg an cs (i + k))))
                     [0..<min (length cs - i) (maxConcurrentChunks cfg)]\<rparr>) of
        Inr st' \<Rightarrow> st'
      | Inl st' \<Rightarrow>
          st'\<lparr>st_errors := st_errors st' @
                [[(''batchIndex'', JNumber (i div maxConcurrentChunks cfg)),
                  (''error'', JString type_error_message)]]\<rparr>)"
  by (simp add: processBatch_def Let_def zip_map_same batch_items unit_settled_def
      comp_def)

lemma unit_settled_defined:
  "1 \<le> retryAttempts cfg \<Longrightarrow> fst (unit_settled cfg an cs j) \<noteq> Rejected None"
  unfolding unit_settled_def processChunkWithRetry_def by (rule retryLoop_defined) simp

lemma unit_settled_message:
  "fst (unit_settled cfg an cs j) = Rejected (Some msg) \<Longrightarrow> msg \<noteq> []"
  unfolding unit_settled_def processChunkWithRetry_def
  using retryLoop_message [of None cfg an "cs ! j" j 1 msg] by simp

lemma unit_settled_success:
  "fst (unit_settled cfg an cs j) = Fulfilled r \<Longrightarrow> success r"
  unfolding unit_settled_def processChunkWithRetry_def by (rule retryLoop_success)

lemma map_shift: "map (\<lambda>k. f (i + k)) [0..<l] = map f [i..<i + l]"
  by (induction l) simp_all

lemma filter_shift: "length (filter (\<lambda>k. P (i + k)) [0..<l]) = length (filter P [i..<i + l])"
  by (induction l) simp_all

lemma advanced_refl: "k \<le> i \<Longrightarrow> advanced cfg an cs i k st st"
  by (simp add: advanced_def)

lemma advanced_trans:
  assumes a: "advanced cfg an cs i k st st1" and b: "advanced cfg an cs k n st1 st'"
    and ik: "i \<le> k" and kn: "k \<le> n"
  shows "advanced cfg an cs i n st st'"
proof -
  have u: "[i..<n] = [i..<k] @ [k..<n]"
    using ik kn by (metis le_Suc_ex upt_add_eq_append)
  have e: "list_all (\<lambda>j. case fst (unit_settled cfg an cs j) of
                          Fulfilled r \<Rightarrow> True
                        | Rejected None \<Rightarrow> True
                        | Rejected (Some msg) \<Rightarrow>
                            error_entry j (chunk_id (cs ! j)) msg \<in> set (st_errors st'))
           [i..<k]"
    using a b unfolding advanced_def list_all_iff
    by (auto split: settled.splits option.splits)
  show ?thesis
    using a b e unfolding advanced_def u by auto
qed

lemma processBatch_advanced:
  assumes r: "1 \<le> retryAttempts cfg"
  shows "advanced cfg an cs i (i + min (length cs - i) (maxConcurrentChunks cfg)) st
           (processBatch cfg an cs i st)"
proof -
  define l where "l = min (length cs - i) (maxConcurrentChunks cfg)"
  define xs where "xs = map (\<lambda>k. (k, cs ! (i + k), fst (unit_settled cfg an cs (i + k)))) [0..<l]"
  define st1 where "st1 = st\<lparr>attemptLog := attemptLog st @
                   map (\<lambda>k. (i + k, snd (unit_settled cfg an cs (i + k)))) [0..<l]\<rparr>"
  have "\<forall>x\<in>set xs. snd (snd x) \<noteq> Rejected None"
    using unit_settled_defined [OF r] by (auto simp: xs_def)
  then obtain st' where s: "settleLoop i xs st1 = Inr st'"
    using settleLoop_returns by blast
  have pb: "processBatch cfg an cs i st = st'"
    using s by (simp add: processBatch_unfold l_def [symmetric] xs_def [symmetric]
        st1_def [symmetric])
  have lg: "attemptLog st' = attemptLog st @ map (\<lambda>j. (j, snd (unit_settled cfg an cs j))) [i..<i + l]"
    using settleLoop_log [OF s] map_shift [of "\<lambda>j. (j, snd (unit_settled cfg an cs j))" i l]
    by (simp add: st1_def)
  have rs: "length (st_results st') = length (st_results st)
      + length (filter (\<lambda>j. fulfilled (fst (unit_settled cfg an cs j))) [i..<i + l])"
    using settleLoop_results [OF s]
      filter_shift [of "\<lambda>j. fulfilled (fst (unit_settled cfg an cs j))" i l]
    by (simp add: st1_def xs_def filter_map comp_def)
  have es: "length (st_errors st') = length (st_errors st)
      + length (filter (\<lambda>j. \<not> fulfilled (fst (unit_settled cfg an cs j))) [i..<i + l])"
    using settleLoop_errors [OF s]
      filter_shift [of "\<lambda>j. \<not> fulfilled (fst (unit_settled cfg an cs j))" i l]
    by (simp add: st1_def xs_def filter_map comp_def)
  have kp: "set (st_errors st) \<subseteq> set (st_errors st')"
    using settleLoop_keeps [OF s] by (simp add: st1_def)
  have en: "list_all (\<lambda>j. case fst (unit_settled cfg an cs j) of
                          Fulfilled r \<Rightarrow> True
                        | Rejected None \<Rightarrow> True
                        | Rejected (Some msg) \<Rightarrow>
                            error_entry j (chunk_id (cs ! j)) msg \<in> set (st_errors st'))
           [i..<i + l]"
    unfolding list_all_iff
  proof
    fix j assume "j \<in> set [i..<i + l]"
    then have j: "i \<le> j" "j - i < l" by auto
    show "case fst (unit_settled cfg an cs j) of
            Fulfilled r \<Rightarrow> True
          | Rejected None \<Rightarrow> True
          | Rejected (Some msg) \<Rightarrow> error_entry j (chunk_id (cs ! j)) msg \<in> set (st_errors st')"
    proof (cases "fst (unit_settled cfg an cs j)")
      case (Fulfilled r)
      then show ?thesis by simp
    next
      case (Rejected e)
      show ?thesis
      proof (cases e)
        case None
        then show ?thesis using Rejected by simp
      next
        case (Some msg)
        have x: "(j - i, cs ! j, fst (unit_settled cfg an cs j)) \<in> set xs"
          using j by (force simp: xs_def)
        have "error_entry (i + (j - i)) (chunk_id (cs ! j)) msg \<in> set (st_errors st')"
          using settleLoop_entry [OF s x, of msg] Rejected Some unit_settled_message [of cfg an cs j msg]
          by simp
        then show ?thesis using Rejected Some j by simp
      qed
    qed
  qed
  have sc: "list_all success (st_results st') \<or> \<not> list_all success (st_results st)"
  proof (cases "list_all success (st_results st)")
    case True
    then have "list_all success (st_results st1)" by (simp add: st1_def)
    moreover have "\<forall>x\<in>set xs. \<forall>r. snd (snd x) = Fulfilled r \<longrightarrow> success r"
      using unit_settled_success by (auto simp: xs_def)
    ultimately show ?thesis using settleLoop_success [OF s] by blast
  next
    case False
    then show ?thesis by simp
  qed
  show ?thesis
    unfolding pb l_def [symmetric] advanced_def using lg rs es kp en sc by simp
qed

lemma batchLoop_advanced:
  assumes r: "1 \<le> retryAttempts cfg" and m: "1 \<le> maxConcurrentChunks cfg"
  shows "\<exists>st'. batchLoop cfg an cs i st = Some st' \<and> advanced cfg an cs i (length cs) st st'"
proof (induction "length cs - i" arbitrary: i st rule: less_induct)
  case less
  show ?case
  proof (cases "i < length cs")
    case False
    then show ?thesis
      by (subst batchLoop.simps) (simp add: advanced_refl)
  next
    case True
    define k where "k = i + min (length cs - i) (maxConcurrentChunks cfg)"
    define st1 where "st1 = processBatch cfg an cs i st"
    have a: "advanced cfg an cs i k st st1"
      unfolding k_def st1_def by (rule processBatch_advanced [OF r])
    have dec: "length cs - (i + maxConcurrentChunks cfg) < length cs - i"
      using True m by simp
    from less [OF dec, of st1] obtain st'
      where b: "batchLoop cfg an cs (i + maxConcurrentChunks cfg) st1 = Some st'"
        and c: "advanced cfg an cs (i + maxConcurrentChunks cfg) (length cs) st1 st'"
      by blast
    have c': "advanced cfg an cs k (length cs) st1 st'"
    proof (cases "maxConcurrentChunks cfg \<le> length cs - i")
      case True
      then have "k = i + maxConcurrentChunks cfg" by (simp add: k_def)
      then show ?thesis using c by simp
    next
      case False
      then have kl: "k = length cs" using True by (simp add: k_def)
      have e: "[i + maxConcurrentChunks cfg..<length cs] = []" using False by simp
      show ?thesis using c unfolding advanced_def e kl by simp
    qed
    have "i \<le> k" "k \<le> length cs" using True by (simp_all add: k_def)
    then have "advanced cfg an cs i (length cs) st st'"
      using advanced_trans [OF a c'] by simp
    moreover have "batchLoop cfg an cs i st = Some st'"
      using True b by (subst batchLoop.simps) (simp add: st1_def)
    ultimately show ?thesis by blast
  qed
qed



lemma runBatches_advanced:
  assumes "1 \<le> retryAttempts cfg" and "1 \<le> maxConcurrentChunks cfg"
  shows "\<exists>st. runBatches cfg an cs = Some st
           \<and> advanced cfg an cs 0 (length cs) initial_state st"
  using batchLoop_advanced [OF assms, of an cs 0 initial_state]
  by (simp add: runBatches_def initial_state_def)

text \<open>
  C3, amended. Under a policy with \<^verbatim>\<open>maxConcurrentChunks \<ge> 1\<close> and \<^verbatim>\<open>retryAttempts \<ge> 1\<close>, for
  every list of chunks and every behaviour of the agents, \<^verbatim>\<open>processChunksInParallel\<close> returns,
  and in the returned object \<^verbatim>\<open>processedChunks + errors.length = totalChunks = chunks.length\<close>:
  every unit contributes one entry, to \<^verbatim>\<open>results\<close> when its promise is fulfilled (and then the
  result is a successful one) and to \<^verbatim>\<open>errors\<close> when it is rejected.
\<close>

theorem processChunksInParallel_counts:
  assumes m: "1 \<le> maxConcurrentChunks cfg" and r: "1 \<le> retryAttempts cfg"
  shows "\<exists>out. processChunksInParallel cfg an elapsed cs = Some out
           \<and> processedChunks out + length (errors out) = totalChunks out
           \<and> totalChunks out = length cs
           \<and> processedChunks out = length (results out)
           \<and> list_all success (results out)
           \<and> length (results out)
               = length (filter (\<lambda>j. fulfilled (fst (unit_settled cfg an cs j))) [0..<length cs])
           \<and> length (errors out)
               = length (filter (\<lambda>j. \<not> fulfilled (fst (unit_settled cfg an cs j))) [0..<length cs])"
proof -
  from runBatches_advanced [OF r m, of an cs] obtain st
    where s: "runBatches cfg an cs = Some st"
      and a: "advanced cfg an cs 0 (length cs) initial_state st" by blast
  have "length (filter (\<lambda>j. fulfilled (fst (unit_settled cfg an cs j))) [0..<length cs])
      + length (filter (\<lambda>j. \<not> fulfilled (fst (unit_settled cfg an cs j))) [0..<length cs])
      = length cs"
    using sum_length_filter_compl [of "\<lambda>j. fulfilled (fst (unit_settled cfg an cs j))" "[0..<length cs]"]
    by simp
  then show ?thesis
    using s a by (simp add: processChunksInParallel_def advanced_def initial_state_def)
qed

theorem processChunksInParallel_counts_witness:
  "1 \<le> maxConcurrentChunks scenario_config \<and> 1 \<le> retryAttempts scenario_config
   \<and> (\<exists>out. processChunksInParallel scenario_config scenario_analyzer 0 scenario_units = Some out
          \<and> processedChunks out + length (errors out) = 5
          \<and> totalChunks out = 5)"
proof -
  have m: "1 \<le> maxConcurrentChunks scenario_config" by (simp add: scenario_config_def)
  have r: "1 \<le> retryAttempts scenario_config" by (simp add: scenario_config_def)
  have l: "length scenario_units = 5" by (simp add: scenario_units_def)
  from processChunksInParallel_counts [OF m r, of scenario_analyzer 0 scenario_units]
  show ?thesis using m r l by auto
qed

text \<open>
  C3, as stated, fails. With \<^verbatim>\<open>retryAttempts = 0\<close> the retry loop makes no attempt and throws
  its \<^verbatim>\<open>lastError\<close>, which is \<^verbatim>\<open>undefined\<close>; reading \<^verbatim>\<open>result.reason.message\<close> then throws inside
  the \<^verbatim>\<open>forEach\<close>, and the \<^verbatim>\<open>catch\<close> of the batch records one error for the whole batch: for
  five units, three at a time, no result and two errors, which do not sum to five.
\<close>

theorem one_error_per_batch_counterexample:
  "retryAttempts no_attempts_config = 0
   \<and> maxConcurrentChunks no_attempts_config = 3
   \<and> length scenario_units = 5
   \<and> processChunksInParallel no_attempts_config scenario_analyzer 0 scenario_units
       = Some \<lparr> results = [],
                errors = [[(''batchIndex'', JNumber 0), (''error'', JString type_error_message)],
                          [(''batchIndex'', JNumber 1), (''error'', JString type_error_message)]],
                duration = 0, batch_success = False, processedChunks = 0, totalChunks = 5 \<rparr>
   \<and> (case processChunksInParallel no_attempts_config scenario_analyzer 0 scenario_units of
         None \<Rightarrow> False
       | Some out \<Rightarrow>
           processedChunks out + length (errors out) = 2 \<and> totalChunks out = 5
           \<and> processedChunks out + length (errors out) \<noteq> totalChunks out)"
  by (simp add: processChunksInParallel_def runBatches_def batchLoop.simps processBatch_def
      no_attempts_config_def scenario_units_def scenario_unit_def processChunkWithRetry_def
      retryLoop.simps settleStep_def Let_def upt_rec)





section \<open>The aggregator without a successful result\<close>

text \<open>
  C5. When no result of the batch outcome is successful, the aggregator returns (with
  \<^verbatim>\<open>success: true\<close>, and without asking the synthesis model) the degenerate record: its
  summary block reports all \<open>N = results.length + errors.length\<close> attempted units as
  failed and none as successful; its insights are the one sentence that there were no
  successful chunks to aggregate; its scalability and security notes are
  \<^verbatim>\<open>Analysis incomplete\<close>; the architecture is \<^verbatim>\<open>Unknown\<close> and the lists are empty.
\<close>

theorem aggregate_without_successes:
  assumes "successful (results chunkResults) = []"
  shows "agg_success (aggregateResults synth chunkResults)
    \<and> chunk_analysis_summary (agg_data (aggregateResults synth chunkResults))
        = Some \<lparr> total_chunks = length (results chunkResults) + length (errors chunkResults),
                 successful_chunks = 0,
                 failed_chunks = length (results chunkResults) + length (errors chunkResults),
                 chunk_types = [],
                 processing_time = format_processing_time (duration chunkResults) \<rparr>
    \<and> insights (agg_data (aggregateResults synth chunkResults))
        = Some [''Analysis failed - no successful chunks to aggregate'']
    \<and> scalability_notes (agg_data (aggregateResults synth chunkResults))
        = Some ''Analysis incomplete''
    \<and> security_considerations (agg_data (aggregateResults synth chunkResults))
        = Some ''Analysis incomplete''
    \<and> architecture_pattern (agg_data (aggregateResults synth chunkResults)) = Some ''Unknown''
    \<and> tech_stack (agg_data (aggregateResults synth chunkResults)) = Some []
    \<and> key_components (agg_data (aggregateResults synth chunkResults)) = Some []
    \<and> dependencies (agg_data (aggregateResults synth chunkResults)) = Some []"
  using assms by (simp add: aggregateResults_def createFallbackAggregation_def)

text \<open>Six units attempted, none successful: the summary reads 6, 0 and 6.\<close>

theorem aggregate_without_successes_witness:
  "successful (results six_failed) = []
   \<and> chunk_analysis_summary (agg_data (aggregateResults (\<lambda>rs co. None) six_failed))
        = Some \<lparr> total_chunks = 6, successful_chunks = 0, failed_chunks = 6, chunk_types = [],
                 processing_time = ''2 minutes 5 seconds'' \<rparr>
   \<and> insights (agg_data (aggregateResults (\<lambda>rs co. None) six_failed))
        = Some [''Analysis failed - no successful chunks to aggregate'']"
proof -
  have h: "successful (results six_failed) = []" by (simp add: six_failed_def)
  have t: "format_processing_time 125000 = ''2 minutes 5 seconds''"
    by (simp add: format_processing_time_def show_nat.simps digit_char_def)
  show ?thesis
    using h aggregate_without_successes [OF h, of "\<lambda>rs co. None"] t
    by (simp add: six_failed_def)
qed

section \<open>The orchestrator\<close>





section \<open>The architecture label\<close>

lemma keys_plain_inc: "map fst (plain_inc c x) = set_add (map fst c) x"
  by (induction c) (auto simp: set_add_def)

lemma keys_counts: "map fst (foldl plain_inc c ps) = foldl set_add (map fst c) ps"
  by (induction ps arbitrary: c) (simp_all add: keys_plain_inc)

lemma map_of_plain_inc:
  "map_of (plain_inc c x) k =
     (if k = x then Some (case map_of c x of None \<Rightarrow> 1 | Some n \<Rightarrow> n + 1) else map_of c k)"
  by (induction c) auto

lemma map_of_counts:
  "map_of (foldl plain_inc c ps) k =
     (case map_of c k of
        None \<Rightarrow> if k \<in> set ps then Some (count_list ps k) else None
      | Some n \<Rightarrow> Some (n + count_list ps k))"
proof (induction ps arbitrary: c)
  case Nil
  then show ?case by (simp split: option.splits)
next
  case (Cons p ps)
  show ?case
    by (simp add: Cons.IH map_of_plain_inc split: option.splits)
qed

lemma set_from_set: "set (foldl set_add acc ps) = set acc \<union> set ps"
  by (induction ps arbitrary: acc) (auto simp: set_add_def)

lemma distinct_from_set: "distinct acc \<Longrightarrow> distinct (foldl set_add acc ps)"
  by (induction ps arbitrary: acc) (auto simp: set_add_def)

lemma from_set_snoc: "from_set (ps @ [x]) = set_add (from_set ps) x"
  by (simp add: from_set_def)

lemma from_set_order:
  "from_set ps = pre @ r # post \<Longrightarrow> set pre = set (takeWhile (\<lambda>y. y \<noteq> r) ps)"
proof (induction ps arbitrary: pre r post rule: rev_induct)
  case Nil
  then show ?case by (simp add: from_set_def)
next
  case (snoc x ps)
  have sets: "set (from_set ps) = set ps"
    using set_from_set [of "[]" ps] by (simp add: from_set_def)
  show ?case
  proof (cases "x \<in> set (from_set ps)")
    case True
    then have eq: "from_set ps = pre @ r # post"
      using snoc.prems by (simp add: from_set_snoc set_add_def)
    then have "r \<in> set ps" using sets by (metis in_set_conv_decomp)
    then have "takeWhile (\<lambda>y. y \<noteq> r) (ps @ [x]) = takeWhile (\<lambda>y. y \<noteq> r) ps"
      by (simp add: takeWhile_append1)
    then show ?thesis using snoc.IH [OF eq] by simp
  next
    case False
    then have eq: "from_set ps @ [x] = pre @ r # post"
      using snoc.prems by (simp add: from_set_snoc set_add_def)
    show ?thesis
    proof (cases post rule: rev_cases)
      case Nil
      then have "pre = from_set ps" "r = x" using eq by simp_all
      moreover have "takeWhile (\<lambda>y. y \<noteq> x) (ps @ [x]) = ps @ takeWhile (\<lambda>y. y \<noteq> x) [x]"
        using False sets by (intro takeWhile_append2) auto
      ultimately show ?thesis using sets by simp
    next
      case (snoc post' z)
      then have eq': "from_set ps = pre @ r # post'" using eq
        by (metis append_assoc append_Cons butlast_snoc)
      then have "r \<in> set ps" using sets by (metis in_set_conv_decomp)
      then have "takeWhile (\<lambda>y. y \<noteq> r) (ps @ [x]) = takeWhile (\<lambda>y. y \<noteq> r) ps"
        by (simp add: takeWhile_append1)
      then show ?thesis using snoc.IH [OF eq'] by simp
    qed
  qed
qed

lemma reduce_pick:
  "\<exists>pre post. e # es = pre @ foldl pick e es # post
     \<and> (\<forall>x\<in>set pre. snd x \<le> snd (foldl pick e es))
     \<and> (\<forall>x\<in>set post. snd x < snd (foldl pick e es))"
proof (induction es rule: rev_induct)
  case Nil
  show ?case by (simp add: exI [of _ "[]"])
next
  case (snoc b es)
  then obtain pre post where d: "e # es = pre @ foldl pick e es # post"
    and le: "\<forall>x\<in>set pre. snd x \<le> snd (foldl pick e es)"
    and lt: "\<forall>x\<in>set post. snd x < snd (foldl pick e es)" by blast
  show ?case
  proof (cases "snd (foldl pick e es) > snd b")
    case True
    then have r: "foldl pick e (es @ [b]) = foldl pick e es" by (simp add: pick_def)
    have "e # es @ [b] = pre @ foldl pick e es # (post @ [b])" using d by simp
    then show ?thesis using le lt True unfolding r
      by (intro exI [of _ pre] exI [of _ "post @ [b]"]) auto
  next
    case False
    then have r: "foldl pick e (es @ [b]) = b" by (simp add: pick_def)
    have all: "\<forall>x\<in>set (e # es). snd x \<le> snd b"
    proof
      fix x assume "x \<in> set (e # es)"
      then have "x \<in> set pre \<or> x = foldl pick e es \<or> x \<in> set post"
        using d by (metis Un_iff insert_iff list.set(2) set_append)
      then show "snd x \<le> snd b" using le lt False by force
    qed
    have "e # es @ [b] = (e # es) @ b # []" by simp
    then show ?thesis using all unfolding r
      by (intro exI [of _ "e # es"] exI [of _ "[]"]) auto
  qed
qed

lemma count_inc_plain:
  "k \<notin> set inherited_keys \<Longrightarrow> count_inc (map as_count c) k = map as_count (plain_inc c k)"
  by (induction c) (auto simp: as_count_def inherited_keys_def)

lemma counts_plain:
  "list_all (\<lambda>k. k \<notin> set inherited_keys) ps \<Longrightarrow>
     foldl count_inc (map as_count c) ps = map as_count (foldl plain_inc c ps)"
  by (induction ps arbitrary: c) (simp_all add: count_inc_plain)

lemma reduce_plain:
  "foldl (\<lambda>a b. if js_greater (snd a) (snd b) then a else b) (as_count e) (map as_count es)
     = as_count (foldl pick e es)"
  by (induction es arbitrary: e) (simp_all add: pick_def as_count_def)

lemma Object_entries_ordinary:
  "list_all (\<lambda>p. \<not> is_array_index (fst p)) obj \<Longrightarrow> Object_entries obj = obj"
proof -
  assume a: "list_all (\<lambda>p. \<not> is_array_index (fst p)) obj"
  then have "filter (\<lambda>p. is_array_index (fst p)) obj = []"
    by (simp add: list_all_iff filter_empty_conv)
  moreover have "filter (\<lambda>p. \<not> is_array_index (fst p)) obj = obj"
    using a by (simp add: list_all_iff filter_id_conv)
  ultimately show ?thesis by (simp add: Object_entries_def)
qed

text \<open>
  C7, amended. In the rule-based merge, for successful results with at least one truthy
  architecture label (all labels being ordinary keys), the unified label is one of these
  labels and no label is more frequent; and a different label that is as frequent occurs
  before the first occurrence of the unified label. So among the most frequent labels the
  one whose first occurrence comes last wins, not the one that occurred first.
\<close>

theorem determineArchitecturePattern_most_frequent_last:
  assumes ne: "labels rs \<noteq> []"
    and ord: "list_all ordinary_key (labels rs)"
  shows "\<exists>r. determineArchitecturePattern rs = Inr r
    \<and> r \<in> set (labels rs)
    \<and> (\<forall>q\<in>set (labels rs). count_list (labels rs) q \<le> count_list (labels rs) r)
    \<and> (\<forall>q\<in>set (labels rs).
          count_list (labels rs) q = count_list (labels rs) r
          \<longrightarrow> q = r \<or> q \<in> set (takeWhile (\<lambda>x. x \<noteq> r) (labels rs)))"
proof -
  define ps where "ps = labels rs"
  define c where "c = foldl plain_inc [] ps"
  have keys: "map fst c = from_set ps"
    unfolding c_def using keys_counts [of "[]" ps] by (simp add: from_set_def)
  have kset: "set (map fst c) = set ps"
    unfolding keys using set_from_set [of "[]" ps] by (simp add: from_set_def)
  have kdist: "distinct (map fst c)"
    unfolding keys from_set_def by (rule distinct_from_set) simp
  have val: "map_of c k = (if k \<in> set ps then Some (count_list ps k) else None)" for k
    unfolding c_def by (simp add: map_of_counts)
  have "list_all (\<lambda>p. \<not> is_array_index (fst p)) c"
  proof -
    have "\<forall>k\<in>set (map fst c). \<not> is_array_index k"
      using ord kset by (auto simp: ps_def list_all_iff ordinary_key_def)
    then show ?thesis by (auto simp: list_all_iff)
  qed
  then have "list_all (\<lambda>p. \<not> is_array_index (fst p)) (map as_count c)"
    by (simp add: list_all_iff as_count_def)
  then have ent: "Object_entries (map as_count c) = map as_count c"
    by (rule Object_entries_ordinary)
  have "list_all (\<lambda>k. k \<notin> set inherited_keys) ps"
    using ord by (auto simp: ps_def list_all_iff ordinary_key_def)
  from counts_plain [OF this, of "[]"]
  have real: "foldl count_inc [] ps = map as_count c" by (simp add: c_def)
  have "c \<noteq> []" using kset ne by (auto simp: ps_def)
  then obtain e es where ces: "c = e # es" by (cases c) auto
  define w where "w = foldl pick e es"
  have res: "determineArchitecturePattern rs = Inr (fst w)"
    using ne ent ces reduce_plain [of e es]
    by (simp add: determineArchitecturePattern_def labels_def [symmetric] ps_def [symmetric]
        real w_def as_count_def)
  obtain pre post where d: "c = pre @ w # post"
    and le: "\<forall>x\<in>set pre. snd x \<le> snd w" and lt: "\<forall>x\<in>set post. snd x < snd w"
    using reduce_pick [of e es] ces w_def by auto
  have inc: "(k, n) \<in> set c \<Longrightarrow> k \<in> set ps \<and> n = count_list ps k" for k n
  proof -
    assume "(k, n) \<in> set c"
    then have "map_of c k = Some n" using kdist by simp
    then show ?thesis using val [of k] by (auto split: if_splits)
  qed
  have w_in: "w \<in> set c" using d by simp
  then have wk: "fst w \<in> set ps" and wn: "snd w = count_list ps (fst w)"
    using inc [of "fst w" "snd w"] by simp_all
  have fs: "from_set ps = map fst pre @ fst w # map fst post"
    using keys d by simp
  have preset: "set (map fst pre) = set (takeWhile (\<lambda>y. y \<noteq> fst w) ps)"
    using from_set_order [OF fs] .
  have other: "count_list ps q \<le> snd w
      \<and> (count_list ps q = snd w \<longrightarrow> q = fst w \<or> q \<in> set (takeWhile (\<lambda>y. y \<noteq> fst w) ps))"
    if q: "q \<in> set ps" for q
  proof -
    from q kset obtain n where qn: "(q, n) \<in> set c" by force
    then have n: "n = count_list ps q" using inc by blast
    from qn d have "(q, n) \<in> set pre \<or> (q, n) = w \<or> (q, n) \<in> set post" by auto
    then show ?thesis
    proof (elim disjE)
      assume a: "(q, n) \<in> set pre"
      then have "q \<in> set (map fst pre)" by force
      then show ?thesis using le a n preset by auto
    next
      assume "(q, n) = w"
      then show ?thesis using n by auto
    next
      assume "(q, n) \<in> set post"
      then show ?thesis using lt n by auto
    qed
  qed
  show ?thesis
    unfolding res ps_def [symmetric] using wk wn other by auto
qed

text \<open>
  C7, as stated, fails. For the two labels \<^verbatim>\<open>MVC\<close> and \<^verbatim>\<open>Microservices\<close>, each occurring once
  and in this order, the unified label is \<^verbatim>\<open>Microservices\<close>: the reduction keeps its
  accumulator only where the count is strictly greater, so of two tied labels the later
  one is returned.
\<close>

theorem tie_first_label_counterexample:
  "labels [labelled ''MVC'', labelled ''Microservices''] = [''MVC'', ''Microservices'']
   \<and> count_list [''MVC'', ''Microservices''] ''MVC'' = count_list [''MVC'', ''Microservices''] ''Microservices''
   \<and> determineArchitecturePattern [labelled ''MVC'', labelled ''Microservices'']
       = Inr ''Microservices''
   \<and> determineArchitecturePattern [labelled ''MVC'', labelled ''Microservices''] \<noteq> Inr ''MVC''"
  by (simp add: determineArchitecturePattern_def labels_def labelled_def unit_result_def
      no_analysis_def filter_Boolean_def truthy_def Object_entries_def is_array_index_def
      is_digit_def inherited_functions_def)

theorem determineArchitecturePattern_most_frequent_last_witness:
  "labels [labelled ''MVC'', labelled ''Microservices'', labelled ''MVC''] \<noteq> []
   \<and> list_all ordinary_key (labels [labelled ''MVC'', labelled ''Microservices'', labelled ''MVC''])
   \<and> (\<exists>r. determineArchitecturePattern
               [labelled ''MVC'', labelled ''Microservices'', labelled ''MVC''] = Inr r
          \<and> r \<in> set (labels [labelled ''MVC'', labelled ''Microservices'', labelled ''MVC''])
          \<and> count_list (labels [labelled ''MVC'', labelled ''Microservices'', labelled ''MVC''])
                ''Microservices''
              \<le> count_list (labels [labelled ''MVC'', labelled ''Microservices'', labelled ''MVC''])
                   r)"
proof -
  define rs where "rs = [labelled ''MVC'', labelled ''Microservices'', labelled ''MVC'']"
  have l: "labels rs = [''MVC'', ''Microservices'', ''MVC'']"
    by (simp add: rs_def labels_def labelled_def unit_result_def no_analysis_def
        filter_Boolean_def truthy_def)
  have h1: "labels rs \<noteq> []" using l by simp
  have h2: "list_all ordinary_key (labels rs)"
    unfolding l
    by (simp add: ordinary_key_def is_array_index_def is_digit_def inherited_keys_def
        inherited_functions_def)
  have m: "''Microservices'' \<in> set (labels rs)" using l by simp
  from determineArchitecturePattern_most_frequent_last [OF h1 h2] m
  have "\<exists>r. determineArchitecturePattern rs = Inr r \<and> r \<in> set (labels rs)
      \<and> count_list (labels rs) ''Microservices'' \<le> count_list (labels rs) r"
    by blast
  then show ?thesis using h1 h2 unfolding rs_def by simp
qed

section \<open>The component merge\<close>

text \<open>
  C9. The component merge keys a component by the string \<^verbatim>\<open>name + '-' + type\<close>. The
  components named \<^verbatim>\<open>a-b\<close> of type \<^verbatim>\<open>c\<close> and named \<^verbatim>\<open>a\<close> of type \<^verbatim>\<open>b-c\<close> differ in name
  and in type, both have the key \<^verbatim>\<open>a-b-c\<close>, and the merge returns one entry for the two:
  the first, with the technologies and the description of the second merged in.
\<close>

theorem mergeComponents_key_collision:
  "(comp_name component_ab_c, comp_type component_ab_c)
      \<noteq> (comp_name component_a_bc, comp_type component_a_bc)
   \<and> component_key component_ab_c = ''a-b-c''
   \<and> component_key component_a_bc = ''a-b-c''
   \<and> mergeComponents [unit_result ''chunk_1''
         (no_analysis\<lparr>key_components := Some [component_ab_c, component_a_bc]\<rparr>)]
      = Inr [\<lparr> comp_name = Some ''a-b'', comp_type = Some ''c'',
               technologies = Some [''x'', ''y''],
               comp_description = Some ''first; second'',
               comp_chunks = Some [''chunk_1''] \<rparr>]"
  by (simp add: mergeComponents_def mergeStep_def component_key_def tmpl_def component_ab_c_def
      component_a_bc_def unit_result_def no_analysis_def or_empty_def or_else_def from_set_def
      set_add_def)

section \<open>The dependency-edge merge\<close>

lemma push_deps_foldl:
  "foldl (\<lambda>acc dep. acc @ [obj_set ''strength'' (JString ''medium'') dep]) acc ds
     = acc @ map (obj_set ''strength'' (JString ''medium'')) ds"
  by (induction ds arbitrary: acc) simp_all

lemma mergeDependencies_foldl:
  "foldl (\<lambda>allDeps r.
            foldl (\<lambda>acc dep. acc @ [obj_set ''strength'' (JString ''medium'') dep])
              allDeps (or_empty (dependencies (analysis r)))) acc rs
     = acc @ map (obj_set ''strength'' (JString ''medium'')) (all_dependencies rs)"
  by (induction rs arbitrary: acc) (simp_all add: push_deps_foldl all_dependencies_def)

lemma obj_get_obj_set: "obj_get (obj_set k v obj) k = v"
  by (induction obj) (simp_all add: obj_get_def)

lemma obj_set_others:
  "filter (\<lambda>p. fst p \<noteq> k) (obj_set k v obj) = filter (\<lambda>p. fst p \<noteq> k) obj"
  by (induction obj) simp_all

text \<open>
  C10. The rule-based merge of the dependency edges returns the edges of all successful
  results in order, one output edge per input edge (duplicates are kept); every output
  edge reads \<^verbatim>\<open>strength = 'medium'\<close> whatever the input edge carried; and with the
  \<^verbatim>\<open>strength\<close> property left aside, every output edge has the properties of its input
  edge, in the same order and with the same values.
\<close>

theorem mergeDependencies_strength_medium:
  "mergeDependencies rs = map (obj_set ''strength'' (JString ''medium'')) (all_dependencies rs)
   \<and> length (mergeDependencies rs) = length (all_dependencies rs)
   \<and> map (\<lambda>dep. obj_get dep ''strength'') (mergeDependencies rs)
       = replicate (length (all_dependencies rs)) (JString ''medium'')
   \<and> map (filter (\<lambda>p. fst p \<noteq> ''strength'')) (mergeDependencies rs)
       = map (filter (\<lambda>p. fst p \<noteq> ''strength'')) (all_dependencies rs)"
proof -
  have eq: "mergeDependencies rs
      = map (obj_set ''strength'' (JString ''medium'')) (all_dependencies rs)"
    using mergeDependencies_foldl [of "[]" rs] by (simp add: mergeDependencies_def)
  have str: "map (\<lambda>dep. obj_get dep ''strength'')
               (map (obj_set ''strength'' (JString ''medium'')) ds)
      = replicate (length ds) (JString ''medium'')" for ds
    by (induction ds) (simp_all add: obj_get_obj_set)
  have oth: "map (filter (\<lambda>p. fst p \<noteq> ''strength''))
               (map (obj_set ''strength'' (JString ''medium'')) ds)
      = map (filter (\<lambda>p. fst p \<noteq> ''strength'')) ds" for ds
    by (induction ds) (simp_all add: obj_set_others)
  show ?thesis
    unfolding eq using str oth by simp
qed

end
